theory Spec2Isabelle
  imports Main "HOL-Library.Word"
begin

unbundle bit_operations_syntax

section \<open>Chunked upload and download client (main.go)\<close>

text \<open>
  The program of \<^verbatim>\<open>src/main.go\<close> creates a sparse test file, reads it in windows of
  \<^verbatim>\<open>ChunkSize\<close> bytes, uploads every window through the storage client library, collects
  the root of every window and finally downloads every collected root again.

  The storage client library, the chain client and the operating system are not part of
  the repository. They are the environment of the model: the library calls are the fields
  of a record of functions over an abstract network state, the file is a byte list with a
  read offset, and console output is a list of events.
\<close>

subsection \<open>Constants (main.go, lines 21-29)\<close>

type_synonym byte = "8 word"
type_synonym bytes = "byte list"

text \<open>\<^verbatim>\<open>common.Hash\<close>: 32 bytes, used for transaction hashes and Merkle roots.\<close>
type_synonym hash = "256 word"

definition LargeFileSize :: int where
  "LargeFileSize = 4 * 1024 * 1024 * 1024"

definition ChunkSize :: nat where
  "ChunkSize = 400 * 1024 * 1024"

definition UploadTaskSize :: nat where
  "UploadTaskSize = 16 * 1024 * 1024"

subsection \<open>The source file and \<^verbatim>\<open>io.ReadFull\<close>\<close>

text \<open>
  Go's \<^verbatim>\<open>error\<close> result of a read: \<open>None\<close> is \<^verbatim>\<open>nil\<close>. \<open>ErrOther\<close> stands for every
  error of the underlying \<^verbatim>\<open>read\<close> that is neither \<^verbatim>\<open>io.EOF\<close> nor
  \<^verbatim>\<open>io.ErrUnexpectedEOF\<close>.
\<close>

datatype io_error = EOF | ErrUnexpectedEOF | ErrOther

text \<open>
  An open file: its bytes, the read offset, and optionally a position at which the
  device fails (reading the byte at that position returns an error of the operating
  system; every byte before it is delivered).
\<close>

record os_file =
  content :: bytes
  offset :: nat
  fault :: "nat option"

text \<open>\<^verbatim>\<open>os.Open\<close>: the offset is 0. \<open>flt = None\<close> is a file on a healthy device.\<close>

definition open_file :: "bytes \<Rightarrow> nat option \<Rightarrow> os_file" where
  "open_file S flt = \<lparr>content = S, offset = 0, fault = flt\<rparr>"

text \<open>The bytes a sequence of reads can deliver before the end or the fault.\<close>

definition visible :: "os_file \<Rightarrow> bytes" where
  "visible f = (case fault f of None \<Rightarrow> content f | Some k \<Rightarrow> take k (content f))"

definition hits_fault :: "os_file \<Rightarrow> bool" where
  "hits_fault f = (case fault f of None \<Rightarrow> False | Some k \<Rightarrow> k < length (content f))"

text \<open>
  \<^verbatim>\<open>io.ReadFull(f, buf)\<close> reads until \<^verbatim>\<open>buf\<close> is full. It returns the number of bytes
  read and \<^verbatim>\<open>nil\<close> when the buffer was filled (also for a buffer of length 0), \<^verbatim>\<open>io.EOF\<close>
  when no byte was read at the end of the file, \<^verbatim>\<open>io.ErrUnexpectedEOF\<close> when the file
  ended after some but not all bytes, and the error of the read otherwise. The result is
  the pair of the count and the error, the buffer after the call and the file after the
  call.
\<close>

definition ReadFull :: "os_file \<Rightarrow> bytes \<Rightarrow> (nat \<times> io_error option) \<times> bytes \<times> os_file" where
  "ReadFull f buf =
     (let got = take (length buf) (drop (offset f) (visible f));
          n = length got;
          err = (if length buf \<le> n then None
                 else if hits_fault f then Some ErrOther
                 else if n = 0 then Some EOF
                 else Some ErrUnexpectedEOF)
      in ((n, err), got @ drop n buf, f\<lparr>offset := offset f + n\<rparr>))"

text \<open>
  \<^verbatim>\<open>createDummyFile(name, size)\<close> (lines 202-213): seek to \<^verbatim>\<open>size - 1\<close> and write one zero
  byte, which leaves a file of \<^verbatim>\<open>size\<close> zero bytes. A negative seek position is an error.
\<close>

definition createDummyFile :: "int \<Rightarrow> string + bytes" where
  "createDummyFile sz =
     (if sz - 1 < 0 then Inl ''seek: invalid argument''
      else Inr (replicate (nat (sz - 1)) 0 @ [0]))"

subsection \<open>The storage client library as environment\<close>

text \<open>
  \<^verbatim>\<open>transfer.UploadOption\<close>, with the fields the program sets. Only the level
  \<^verbatim>\<open>transfer.FileFinalized\<close> occurs in the source; the other levels of the library are one
  constructor here.
\<close>

datatype FinalityRequirement = FileFinalized | OtherFinality

record UploadOption =
  FinalityRequired :: FinalityRequirement
  ExpectedReplica :: nat
  TaskSize :: nat
  Method :: string
  FullTrusted :: bool

text \<open>
  The calls the program makes into the library, over a network state \<open>'n\<close>:
  \<^item> \<^verbatim>\<open>core.NewDataInMemory(data)\<close>: an error or the iterable data;
  \<^item> \<^verbatim>\<open>indexer.Client.Upload(ctx, w3, iter, opt)\<close>: an error or the transaction hash, and
    the network afterwards;
  \<^item> \<^verbatim>\<open>core.MerkleTree(iter)\<close>: an error or the root of the tree;
  \<^item> \<^verbatim>\<open>indexer.Client.Download(ctx, root, outFile, withProof)\<close>: an error, or the bytes
    it wrote to \<^verbatim>\<open>outFile\<close>.
  Library errors are strings.
\<close>

record 'n env =
  NewDataInMemory :: "bytes \<Rightarrow> string + bytes"
  idx_Upload :: "'n \<Rightarrow> bytes \<Rightarrow> UploadOption \<Rightarrow> (string + hash) \<times> 'n"
  MerkleTree :: "bytes \<Rightarrow> string + hash"
  idx_Download :: "'n \<Rightarrow> string \<Rightarrow> string \<Rightarrow> bool \<Rightarrow> string + bytes"

subsection \<open>\<^verbatim>\<open>Hash.Hex()\<close>\<close>

definition hex_digit :: "nat \<Rightarrow> char" where
  "hex_digit k = ''0123456789abcdef'' ! k"

text \<open>\<^verbatim>\<open>0x\<close> followed by the 64 hexadecimal digits of the 32 bytes, most significant first.\<close>

definition Hex :: "hash \<Rightarrow> string" where
  "Hex h = ''0x'' @ map (\<lambda>i. hex_digit (unat (drop_bit (4 * (63 - i)) h AND 15))) [0..<64]"

subsection \<open>\<^verbatim>\<open>StorageClient.Upload\<close> and \<^verbatim>\<open>StorageClient.Download\<close> (lines 137-169)\<close>

text \<open>The three wrapped errors of \<^verbatim>\<open>Upload\<close> (lines 141, 153 and 159).\<close>

datatype upload_error =
    CreateDataFailed string
  | UploadFailed string
  | MerkleRootFailed string

text \<open>The option literal of lines 145-151.\<close>

definition upload_option :: UploadOption where
  "upload_option =
     \<lparr>FinalityRequired = FileFinalized,
      ExpectedReplica = 1,
      TaskSize = UploadTaskSize,
      Method = ''min'',
      FullTrusted = True\<rparr>"

text \<open>
  \<^verbatim>\<open>Upload(ctx, data)\<close> returns \<^verbatim>\<open>(txHash.Hex(), tree.Root().Hex(), nil)\<close> or an error. The
  network state is returned on every path: the library call of line 145 has happened
  whatever the later steps do.
\<close>

definition Upload :: "'n env \<Rightarrow> 'n \<Rightarrow> bytes \<Rightarrow> (upload_error + string \<times> string) \<times> 'n" where
  "Upload e n data =
     (case NewDataInMemory e data of
        Inl err \<Rightarrow> (Inl (CreateDataFailed err), n)
      | Inr iter \<Rightarrow>
          (case idx_Upload e n iter upload_option of
             (Inl err, n') \<Rightarrow> (Inl (UploadFailed err), n')
           | (Inr txHash, n') \<Rightarrow>
               (case MerkleTree e iter of
                  Inl err \<Rightarrow> (Inl (MerkleRootFailed err), n')
                | Inr tree_root \<Rightarrow> (Inr (Hex txHash, Hex tree_root), n'))))"

definition Download :: "'n env \<Rightarrow> 'n \<Rightarrow> string \<Rightarrow> string \<Rightarrow> string + bytes" where
  "Download e n root outFile = idx_Download e n root outFile False"

subsection \<open>The state of a run\<close>

text \<open>
  Console output, one event per line the program prints inside the two loops and at the
  end (the two step headers of lines 74 and 97 carry no data and are left out).
\<close>

datatype event =
    UploadingChunk nat
  | UploadSucceeded string string
  | DownloadingChunk nat string
  | DownloadFailed string
  | DownloadSucceeded string
  | AllDone

text \<open>
  The variables of \<^verbatim>\<open>main\<close> (\<open>src\<close> is the open file, \<open>buffer\<close> and \<open>roots\<close> as in the
  source), the network, the files the downloads left on disk, the console, and two history
  variables that the program does not have: \<open>sent\<close> lists every slice \<^verbatim>\<open>buffer[:n]\<close> handed
  to \<^verbatim>\<open>Upload\<close> at line 87, \<open>fetched\<close> the result of every \<^verbatim>\<open>Download\<close> call of line 102.
\<close>

record 'n run_state =
  src :: os_file
  buffer :: bytes
  roots :: "string list"
  net :: 'n
  disk :: "(string \<times> bytes) list"
  console :: "event list"
  sent :: "bytes list"
  fetched :: "(string + bytes) list"

text \<open>
  How a run ends: \<^verbatim>\<open>log.Fatal\<close> at the read (line 80), \<^verbatim>\<open>log.Fatalf\<close> at a failed upload
  (line 89, with the 1-based number of the chunk), a run-time panic of the slice expression
  \<^verbatim>\<open>root[:10]\<close> (line 100), or the normal end.
\<close>

datatype abort =
    ReadFailed "io_error option"
  | ChunkUploadFailed nat upload_error
  | SliceOutOfRange

datatype 'n outcome =
    Aborted abort "'n run_state"
  | Finished "'n run_state"

fun final :: "'n outcome \<Rightarrow> 'n run_state" where
  "final (Finished st) = st"
| "final (Aborted a st) = st"

fun failure :: "'n outcome \<Rightarrow> abort option" where
  "failure (Finished st) = None"
| "failure (Aborted a st) = Some a"

subsection \<open>Step 2: the upload loop (lines 70-94)\<close>

text \<open>
  One pass through the body of the loop at index \<open>i\<close>. \<open>Break\<close> is the \<^verbatim>\<open>break\<close> of
  line 83, \<open>Continue\<close> the end of the body.
\<close>

datatype 'n body_result =
    Fatal abort "'n run_state"
  | Break "'n run_state"
  | Continue "'n run_state"

definition upload_body :: "'n env \<Rightarrow> nat \<Rightarrow> 'n run_state \<Rightarrow> 'n body_result" where
  "upload_body e i st =
     (let st1 = st\<lparr>console := console st @ [UploadingChunk (i + 1)]\<rparr>;
          ((n, err), buf, f) = ReadFull (src st1) (buffer st1);
          st2 = st1\<lparr>src := f, buffer := buf\<rparr>
      in if err \<noteq> None \<and> err \<noteq> Some EOF \<and> err \<noteq> Some ErrUnexpectedEOF
         then Fatal (ReadFailed err) st2
         else if n = 0 then Break st2
         else
           (let st3 = st2\<lparr>sent := sent st2 @ [take n (buffer st2)]\<rparr> in
            case Upload e (net st3) (take n (buffer st3)) of
              (Inl err', n') \<Rightarrow> Fatal (ChunkUploadFailed (i + 1) err') (st3\<lparr>net := n'\<rparr>)
            | (Inr (txHash, root), n') \<Rightarrow>
                Continue (st3\<lparr>net := n',
                              roots := roots st3 @ [root],
                              console := console st3 @ [UploadSucceeded root txHash]\<rparr>)))"

text \<open>\<^verbatim>\<open>for i := 0; i < 10; i++\<close>.\<close>

function upload_loop :: "'n env \<Rightarrow> nat \<Rightarrow> 'n run_state \<Rightarrow> 'n outcome" where
  "upload_loop e i st =
     (if i < 10 then
        (case upload_body e i st of
           Fatal a st' \<Rightarrow> Aborted a st'
         | Break st' \<Rightarrow> Finished st'
         | Continue st' \<Rightarrow> upload_loop e (i + 1) st')
      else Finished st)"
  by pat_completeness auto
termination
  by (relation "measure (\<lambda>(e, i, st). 10 - i)") auto

declare upload_loop.simps [simp del]

subsection \<open>Step 3: the download loop (lines 96-108)\<close>

text \<open>\<^verbatim>\<open>%d\<close> of a non-negative integer.\<close>

fun itoa :: "nat \<Rightarrow> string" where
  "itoa n = (if n < 10 then [''0123456789'' ! n] else itoa (n div 10) @ [''0123456789'' ! (n mod 10)])"

declare itoa.simps [simp del]

definition remove_file :: "string \<Rightarrow> (string \<times> bytes) list \<Rightarrow> (string \<times> bytes) list" where
  "remove_file name d = filter (\<lambda>(k, v). k \<noteq> name) d"

text \<open>
  \<^verbatim>\<open>for i, root := range roots\<close>: the list is the rest of \<^verbatim>\<open>roots\<close>, \<open>i\<close> the index of its
  head. A failed download is logged with \<^verbatim>\<open>log.Printf\<close> and the loop goes on; after a
  successful one the output file is removed again.
\<close>

fun download_loop :: "'n env \<Rightarrow> nat \<Rightarrow> string list \<Rightarrow> 'n run_state \<Rightarrow> 'n outcome" where
  "download_loop e i [] st = Finished st"
| "download_loop e i (root # rest) st =
     (let outFile = ''downloaded_chunk_'' @ itoa i @ ''.bin'' in
      if length root < 10 then Aborted SliceOutOfRange st
      else
        (let st1 = st\<lparr>console := console st @ [DownloadingChunk (i + 1) (take 10 root @ ''...'')]\<rparr>;
             r = Download e (net st1) root outFile;
             st2 = st1\<lparr>fetched := fetched st1 @ [r]\<rparr>
         in case r of
              Inl err \<Rightarrow>
                download_loop e (i + 1) rest
                  (st2\<lparr>console := console st2 @ [DownloadFailed err]\<rparr>)
            | Inr got \<Rightarrow>
                download_loop e (i + 1) rest
                  (st2\<lparr>console := console st2 @ [DownloadSucceeded outFile],
                       disk := remove_file outFile ((outFile, got) # disk st2)\<rparr>)))"

subsection \<open>\<^verbatim>\<open>main\<close> from the opened file on (lines 70-112)\<close>

definition init_state :: "os_file \<Rightarrow> nat \<Rightarrow> 'n \<Rightarrow> 'n run_state" where
  "init_state f chunk_size n =
     \<lparr>src = f, buffer = replicate chunk_size 0, roots = [], net = n, disk = [],
      console = [], sent = [], fetched = []\<rparr>"

text \<open>
  The two loops and the closing banner, for a file \<open>f\<close> and a buffer of \<open>chunk_size\<close>
  bytes. The banner of lines 110-112 is printed whenever the download loop ends.
\<close>

definition main_steps :: "'n env \<Rightarrow> os_file \<Rightarrow> nat \<Rightarrow> 'n \<Rightarrow> 'n outcome" where
  "main_steps e f chunk_size n =
     (case upload_loop e 0 (init_state f chunk_size n) of
        Aborted a st \<Rightarrow> Aborted a st
      | Finished st \<Rightarrow>
          (case download_loop e 0 (roots st) st of
             Aborted a st' \<Rightarrow> Aborted a st'
           | Finished st' \<Rightarrow> Finished (st'\<lparr>console := console st' @ [AllDone]\<rparr>)))"

text \<open>
  The program itself: the file is the one \<^verbatim>\<open>createDummyFile\<close> wrote, the buffer has
  \<^verbatim>\<open>ChunkSize\<close> bytes. (The private key, the client set-up and the node listing of lines
  38-53 do not touch the data and are not modelled; creating and opening the file are
  taken to succeed.)
\<close>

definition main :: "'n env \<Rightarrow> 'n \<Rightarrow> string + 'n outcome" where
  "main e n =
     (case createDummyFile LargeFileSize of
        Inl err \<Rightarrow> Inl err
      | Inr S \<Rightarrow> Inr (main_steps e (open_file S None) ChunkSize n))"

subsection \<open>Reference notions for the statements\<close>

text \<open>Window \<open>j\<close> of a byte sequence cut into windows of \<open>cs\<close> bytes.\<close>

definition frag :: "nat \<Rightarrow> bytes \<Rightarrow> nat \<Rightarrow> bytes" where
  "frag cs V j = take cs (drop (j * cs) V)"

text \<open>
  The number of windows the loop handles: all windows of the sequence, but at most 10.
\<close>

definition fragment_count :: "nat \<Rightarrow> bytes \<Rightarrow> nat" where
  "fragment_count cs V = min 10 ((length V + cs - 1) div cs)"

text \<open>
  The root \<^verbatim>\<open>Upload\<close> computes for a slice at lines 139, 157 and 162, as a function of the
  slice and the two local library calls alone.
\<close>

definition root_of :: "'n env \<Rightarrow> bytes \<Rightarrow> string option" where
  "root_of e d =
     (case NewDataInMemory e d of
        Inl err \<Rightarrow> None
      | Inr iter \<Rightarrow> (case MerkleTree e iter of Inl err \<Rightarrow> None | Inr h \<Rightarrow> Some (Hex h)))"

text \<open>The name of the output file of download \<open>j\<close> (line 99).\<close>

definition outFile_name :: "nat \<Rightarrow> string" where
  "outFile_name j = ''downloaded_chunk_'' @ itoa j @ ''.bin''"

text \<open>The console lines of the download loop (lines 100, 103 and 105).\<close>

definition download_event :: "event \<Rightarrow> bool" where
  "download_event ev =
     (case ev of
        DownloadingChunk j r \<Rightarrow> True
      | DownloadFailed err \<Rightarrow> True
      | DownloadSucceeded f \<Rightarrow> True
      | UploadingChunk j \<Rightarrow> False
      | UploadSucceeded r tx \<Rightarrow> False
      | AllDone \<Rightarrow> False)"

text \<open>The bytes the downloads delivered, in order; a failed download delivers none.\<close>

definition fetched_bytes :: "(string + bytes) list \<Rightarrow> bytes" where
  "fetched_bytes rs = concat (map (\<lambda>r. case r of Inl err \<Rightarrow> [] | Inr d \<Rightarrow> d) rs)"

subsection \<open>Environments for concrete runs\<close>

text \<open>
  A network without failures: a content-addressed store that keeps every uploaded slice
  under its root and serves the latest slice stored under a root. \<open>mroot\<close> is the tree
  hash; \<^verbatim>\<open>core.NewDataInMemory\<close> refuses empty data.
\<close>

definition honest_env :: "(bytes \<Rightarrow> hash) \<Rightarrow> (string \<times> bytes) list env" where
  "honest_env mroot =
     \<lparr>NewDataInMemory = (\<lambda>d. if d = [] then Inl ''data is empty'' else Inr d),
      idx_Upload = (\<lambda>n d opt. (Inr (mroot d), (Hex (mroot d), d) # n)),
      MerkleTree = (\<lambda>d. Inr (mroot d)),
      idx_Download = (\<lambda>n root outFile withProof.
         case map_of n root of None \<Rightarrow> Inl ''file not found'' | Some d \<Rightarrow> Inr d)\<rparr>"

text \<open>
  The same network with room for \<open>cap\<close> slices: an upload to a full network fails and
  stores nothing.
\<close>

definition limited_env :: "(bytes \<Rightarrow> hash) \<Rightarrow> nat \<Rightarrow> (string \<times> bytes) list env" where
  "limited_env mroot cap =
     (honest_env mroot)
       \<lparr>idx_Upload := (\<lambda>n d opt.
          if length n < cap then idx_Upload (honest_env mroot) n d opt
          else (Inl ''no storage node available'', n))\<rparr>"

text \<open>A small stand-in for the tree hash: the bytes packed behind a leading 1.\<close>

definition toy_root :: "bytes \<Rightarrow> hash" where
  "toy_root d = foldl (\<lambda>a b. push_bit 8 a + ucast b) 1 d"

text \<open>
  A network that only records the option record of every upload it is asked for, in the
  order of the requests.
\<close>

definition recording_env :: "UploadOption list env" where
  "recording_env =
     \<lparr>NewDataInMemory = (\<lambda>d. if d = [] then Inl ''data is empty'' else Inr d),
      idx_Upload = (\<lambda>n d opt. (Inr (toy_root d), n @ [opt])),
      MerkleTree = (\<lambda>d. Inr (toy_root d)),
      idx_Download = (\<lambda>n root outFile withProof. Inl ''file not found'')\<rparr>"

section \<open>The command-line driver (src/unnamed/part_000)\<close>

text \<open>
  The second program of the repository runs the storage client binary as a child process:
  once to upload the whole test file with \<^verbatim>\<open>--fragment-size\<close>, once to download it by the
  root it found in the output of the first run. Its \<^verbatim>\<open>main\<close> is \<open>main_cli\<close> here. The child
  process is the environment: a function from a world, the command and its arguments to
  what the process did.
\<close>

subsection \<open>Constants (lines 13-29)\<close>

definition ClientBinaryPath :: string where
  "ClientBinaryPath = ''./0g-storage-client.exe''"

definition JsonRpc :: string where
  "JsonRpc = ''https://evm-rpc.0g.ai''"

definition IndexerUrl :: string where
  "IndexerUrl = ''https://indexer-storage-testnet.0g.ai''"

definition PrivateKey :: string where
  "PrivateKey = ''''"

definition TestFileName :: string where
  "TestFileName = ''test_4gb_data.bin''"

definition FileSize :: int where
  "FileSize = 4 * 1024 * 1024 * 1024"

definition FragmentSize :: nat where
  "FragmentSize = 400 * 1024 * 1024"

subsection \<open>\<^verbatim>\<open>parseRootHash\<close> (lines 131-138)\<close>

text \<open>
  The pattern is \<^verbatim>\<open>root[:\s]+(0x[a-fA-F0-9]{64})\<close>. In Go's syntax \<^verbatim>\<open>\s\<close> is tab, line
  feed, form feed, carriage return and space.
\<close>

definition is_sep :: "char \<Rightarrow> bool" where
  "is_sep c = (c \<in> set [CHR '':'', CHR 0x09, CHR 0x0A, CHR 0x0C, CHR 0x0D, CHR '' ''])"

definition is_hex :: "char \<Rightarrow> bool" where
  "is_hex c = (c \<in> set ''0123456789abcdefABCDEF'')"

text \<open>
  A match of the pattern that starts at the head of \<open>s\<close>: the whole match and the
  submatch. After \<^verbatim>\<open>root\<close> the separators must be taken to the last one, since the next
  character has to be \<^verbatim>\<open>0\<close>, which is no separator; so there is at most one match at a
  position.
\<close>

definition match_at :: "string \<Rightarrow> (string \<times> string) option" where
  "match_at s =
     (if take 4 s = ''root'' then
        (let seps = takeWhile is_sep (drop 4 s);
             t = dropWhile is_sep (drop 4 s)
         in if seps \<noteq> [] \<and> take 2 t = ''0x'' \<and> 64 \<le> length (drop 2 t) \<and>
               list_all is_hex (take 64 (drop 2 t))
            then Some (''root'' @ seps @ take 66 t, take 66 t)
            else None)
      else None)"

text \<open>
  \<^verbatim>\<open>re.FindStringSubmatch(log)\<close>: the leftmost match, as the list of the whole match and the
  submatch; \<^verbatim>\<open>nil\<close> is the empty list.
\<close>

fun FindStringSubmatch :: "string \<Rightarrow> string list" where
  "FindStringSubmatch [] = []"
| "FindStringSubmatch (c # s) =
     (case match_at (c # s) of
        Some (whole, sub) \<Rightarrow> [whole, sub]
      | None \<Rightarrow> FindStringSubmatch s)"

definition parseRootHash :: "string \<Rightarrow> string" where
  "parseRootHash log =
     (let matches = FindStringSubmatch log
      in if 1 < length matches then matches ! 1 else '''')"

text \<open>
  The pattern as a language, for the statements: \<open>whole\<close> is a word of the pattern with
  submatch \<open>sub\<close>; a text has a match; and the match that starts first in a text, which is
  the one \<^verbatim>\<open>FindStringSubmatch\<close> has to return.
\<close>

definition pattern_match :: "string \<Rightarrow> string \<Rightarrow> bool" where
  "pattern_match whole sub \<longleftrightarrow>
     (\<exists>seps hex. whole = ''root'' @ seps @ sub \<and> seps \<noteq> [] \<and> list_all is_sep seps \<and>
        sub = ''0x'' @ hex \<and> length hex = 64 \<and> list_all is_hex hex)"

definition has_match :: "string \<Rightarrow> bool" where
  "has_match s \<longleftrightarrow> (\<exists>a whole sub b. s = a @ whole @ b \<and> pattern_match whole sub)"

definition first_match :: "string \<Rightarrow> string \<Rightarrow> string \<Rightarrow> string \<Rightarrow> bool" where
  "first_match s a whole sub \<longleftrightarrow>
     (\<exists>b. s = a @ whole @ b) \<and> pattern_match whole sub \<and>
     (\<forall>a' whole' sub' b'. s = a' @ whole' @ b' \<and> pattern_match whole' sub' \<longrightarrow> length a \<le> length a')"

subsection \<open>\<^verbatim>\<open>generateLargeFile\<close> and \<^verbatim>\<open>runCommand\<close> (lines 91-129)\<close>

definition generateLargeFile :: "int \<Rightarrow> string + bytes" where
  "generateLargeFile sz =
     (if sz - 1 < 0 then Inl ''seek: invalid argument''
      else Inr (replicate (nat (sz - 1)) 0 @ [0]))"

text \<open>
  What \<^verbatim>\<open>cmd.Wait\<close> does: it returns an error or \<^verbatim>\<open>nil\<close>, or it never returns, because the child
  does not end (for instance a child that still writes to the pipe when the program has
  stopped reading it).
\<close>

datatype wait_result = Blocks | Returns "string option"

text \<open>
  What a child process did: whether it could be started, the bytes it wrote to its standard
  output and error (which the program merges into one pipe), and what \<^verbatim>\<open>cmd.Wait\<close> did.
  Creating the pipe is taken to succeed.
\<close>

record process_result =
  start_error :: "string option"
  out_bytes :: string
  wait :: wait_result

text \<open>
  \<^verbatim>\<open>bufio.NewScanner\<close> with its defaults: the split function is \<^verbatim>\<open>bufio.ScanLines\<close> and a
  token has to fit, with its line feed, into a buffer of \<^verbatim>\<open>bufio.MaxScanTokenSize\<close> bytes.
\<close>

definition MaxScanTokenSize :: nat where
  "MaxScanTokenSize = 64 * 1024"

text \<open>\<^verbatim>\<open>dropCR\<close>: a line loses one carriage return at its end.\<close>

definition dropCR :: "string \<Rightarrow> string" where
  "dropCR l = (if l \<noteq> [] \<and> last l = CHR 0x0D then butlast l else l)"

text \<open>
  The lines \<^verbatim>\<open>scanner.Scan\<close> and \<^verbatim>\<open>scanner.Text\<close> deliver for the bytes still to read, when
  \<open>cur\<close> is the part of the current line read so far. A line ends at a line feed or, if it
  is not empty, at the end of the input. At a line of \<^verbatim>\<open>MaxScanTokenSize\<close> bytes or more
  \<^verbatim>\<open>Scan\<close> returns false (its error is \<^verbatim>\<open>bufio.ErrTooLong\<close>, which the program never asks
  for), so this line and everything after it is not delivered.
\<close>

fun scan_from :: "string \<Rightarrow> string \<Rightarrow> string list" where
  "scan_from cur [] =
     (if cur = [] \<or> MaxScanTokenSize \<le> length cur then [] else [dropCR cur])"
| "scan_from cur (c # s) =
     (if c = CHR 0x0A then
        (if MaxScanTokenSize \<le> length cur then [] else dropCR cur # scan_from [] s)
      else scan_from (cur @ [c]) s)"

definition Scan :: "string \<Rightarrow> string list" where
  "Scan raw = scan_from [] raw"

text \<open>The console lines of the driver that carry data.\<close>

datatype cli_event =
    GenerateFailed string
  | Generated string int
  | Executing string "string list"
  | Echo string
  | UploadFailedMsg string
  | NoRootHash
  | UploadOk string
  | DownloadFailedMsg string
  | DownloadOk string

text \<open>
  \<^verbatim>\<open>runCommand\<close> prints the command, echoes every line the scanner delivers and returns
  these lines, each followed by a line feed, with the error of the start or of the wait.
  The result is \<open>None\<close> when the call never returns.
\<close>

definition runCommand ::
  "('w \<Rightarrow> string \<Rightarrow> string list \<Rightarrow> process_result \<times> 'w) \<Rightarrow> 'w \<Rightarrow> string \<Rightarrow> string list \<Rightarrow>
     ((string \<times> string option) \<times> cli_event list \<times> 'w) option" where
  "runCommand exec w command args =
     (case exec w command args of (p, w') \<Rightarrow>
        (case start_error p of
           Some err \<Rightarrow> Some (('''', Some err), [Executing command args], w')
         | None \<Rightarrow>
             (let fullOutput = concat (map (\<lambda>m. m @ [CHR 0x0A]) (Scan (out_bytes p)));
                  shown = Executing command args # map Echo (Scan (out_bytes p))
              in case wait p of
                   Blocks \<Rightarrow> None
                 | Returns (Some err) \<Rightarrow> Some ((fullOutput, Some err), shown, w')
                 | Returns None \<Rightarrow> Some ((fullOutput, None), shown, w'))))"

subsection \<open>\<^verbatim>\<open>main\<close> (lines 31-87)\<close>

definition uploadArgs :: "string list" where
  "uploadArgs =
     [''upload'', ''--url'', JsonRpc, ''--key'', PrivateKey, ''--file'', TestFileName,
      ''--fragment-size'', itoa FragmentSize, ''--indexer'', IndexerUrl]"

definition downloadArgs :: "string \<Rightarrow> string list" where
  "downloadArgs rootHash =
     [''download'', ''--root'', rootHash, ''--url'', JsonRpc, ''--indexer'', IndexerUrl,
      ''--output'', ''downloaded_'' @ TestFileName]"

text \<open>
  The result is the console of the run and the world it leaves, or \<open>None\<close> when a command
  never returns.
\<close>

definition main_cli ::
  "('w \<Rightarrow> string \<Rightarrow> string list \<Rightarrow> process_result \<times> 'w) \<Rightarrow> 'w \<Rightarrow> (cli_event list \<times> 'w) option" where
  "main_cli exec w =
     (case generateLargeFile FileSize of
        Inl err \<Rightarrow> Some ([GenerateFailed err], w)
      | Inr written \<Rightarrow>
          (case runCommand exec w ClientBinaryPath uploadArgs of
             None \<Rightarrow> None
           | Some ((output, Some err), shown, w1) \<Rightarrow>
               Some (Generated TestFileName FileSize # shown @ [UploadFailedMsg err], w1)
           | Some ((output, None), shown, w1) \<Rightarrow>
               (let rootHash = parseRootHash output in
                if rootHash = '''' then
                  Some (Generated TestFileName FileSize # shown @ [NoRootHash], w1)
                else
                  (case runCommand exec w1 ClientBinaryPath (downloadArgs rootHash) of
                     None \<Rightarrow> None
                   | Some ((output', Some err), shown', w2) \<Rightarrow>
                       Some (Generated TestFileName FileSize # shown @ [UploadOk rootHash] @ shown'
                          @ [DownloadFailedMsg err], w2)
                   | Some ((output', None), shown', w2) \<Rightarrow>
                       Some (Generated TestFileName FileSize # shown @ [UploadOk rootHash] @ shown'
                          @ [DownloadOk (''downloaded_'' @ TestFileName)], w2)))))"

subsection \<open>A child process for concrete runs\<close>

text \<open>
  A client that writes the given bytes when it is asked to upload and nothing otherwise,
  and always ends without an error. The world counts the processes that were run.
  \<open>stuck_client\<close> writes the same but does not end when it is asked to download.
\<close>

definition printing_client :: "string \<Rightarrow> nat \<Rightarrow> string \<Rightarrow> string list \<Rightarrow> process_result \<times> nat" where
  "printing_client raw w command args =
     (\<lparr>start_error = None,
       out_bytes = (if take 1 args = [''upload''] then raw else []),
       wait = Returns None\<rparr>, w + 1)"

definition stuck_client :: "string \<Rightarrow> nat \<Rightarrow> string \<Rightarrow> string list \<Rightarrow> process_result \<times> nat" where
  "stuck_client raw w command args =
     (\<lparr>start_error = None,
       out_bytes = (if take 1 args = [''upload''] then raw else []),
       wait = (if take 1 args = [''upload''] then Returns None else Blocks)\<rparr>, w + 1)"

section \<open>Invariant and result of the loops\<close>

text \<open>The network after the uploads of the slices \<open>ds\<close>, in this order.\<close>

definition net_after :: "'n env \<Rightarrow> 'n \<Rightarrow> bytes list \<Rightarrow> 'n" where
  "net_after e n ds = foldl (\<lambda>m d. snd (Upload e m d)) n ds"

text \<open>
  What holds before iteration \<open>i\<close> of the upload loop, for a file that delivers the bytes
  \<open>V\<close>, a buffer of \<open>cs\<close> bytes and the network \<open>n0\<close> at the start: the windows
  \<open>0, ..., i - 1\<close> were handed to \<^verbatim>\<open>Upload\<close>, all of them non-empty, and their roots were
  collected.
\<close>

definition upload_inv :: "'n env \<Rightarrow> nat \<Rightarrow> bytes \<Rightarrow> 'n \<Rightarrow> nat \<Rightarrow> 'n run_state \<Rightarrow> bool" where
  "upload_inv e cs V n0 i st \<longleftrightarrow>
     net st = net_after e n0 (sent st) \<and>
     visible (src st) = V \<and> length (buffer st) = cs \<and>
     offset (src st) = min (i * cs) (length V) \<and>
     i \<le> 10 \<and> (i = 0 \<or> (i - 1) * cs < length V) \<and>
     sent st = map (frag cs V) [0..<i] \<and>
     list_all2 (\<lambda>r d. root_of e d = Some r) (roots st) (sent st) \<and>
     fetched st = [] \<and> disk st = []"

text \<open>
  How the upload loop can end: normally, after all windows or after 10 of them; at a read
  error, which only a faulty file gives; or at the failed upload of window \<open>k\<close>.
\<close>

definition upload_post :: "'n env \<Rightarrow> nat \<Rightarrow> bytes \<Rightarrow> 'n \<Rightarrow> 'n outcome \<Rightarrow> bool" where
  "upload_post e cs V n0 r =
     (case r of
        Finished st \<Rightarrow> (\<exists>k. upload_inv e cs V n0 k st \<and> (k = 10 \<or> length V \<le> k * cs))
      | Aborted a st \<Rightarrow>
          (\<exists>k<10. visible (src st) = V \<and> offset (src st) \<le> length V \<and>
             net st = net_after e n0 (sent st) \<and>
             offset (src st) \<le> Suc k * cs \<and> fetched st = [] \<and>
             list_all2 (\<lambda>r d. root_of e d = Some r) (roots st) (map (frag cs V) [0..<k]) \<and>
             (case a of
                ReadFailed err \<Rightarrow>
                  err = Some ErrOther \<and> hits_fault (src st) \<and> sent st = map (frag cs V) [0..<k]
              | ChunkUploadFailed j uerr \<Rightarrow>
                  j = Suc k \<and> k * cs < length V \<and> sent st = map (frag cs V) [0..<Suc k] \<and>
                  fst (Upload e (net_after e n0 (map (frag cs V) [0..<k])) (frag cs V k)) = Inl uerr
              | SliceOutOfRange \<Rightarrow> False)))"

text \<open>The two console lines and the result of the download of root \<open>root\<close> at index \<open>j\<close>.\<close>

definition download_log :: "'n env \<Rightarrow> 'n \<Rightarrow> nat \<times> string \<Rightarrow> event list" where
  "download_log e n jr =
     (case jr of (j, root) \<Rightarrow>
        [DownloadingChunk (j + 1) (take 10 root @ ''...''),
         (case Download e n root (outFile_name j) of
            Inl err \<Rightarrow> DownloadFailed err
          | Inr got \<Rightarrow> DownloadSucceeded (outFile_name j))])"

definition download_result :: "'n env \<Rightarrow> 'n \<Rightarrow> nat \<times> string \<Rightarrow> string + bytes" where
  "download_result e n jr = (case jr of (j, root) \<Rightarrow> Download e n root (outFile_name j))"

section \<open>Properties\<close>

subsection \<open>Evaluating concrete runs\<close>

text \<open>
  Concrete runs are evaluated by rewriting with the definitions. The weak congruence rules
  make the simplifier decide a \<open>case\<close> before it looks into its branches, as an evaluator
  would.
\<close>

lemmas run_congs = body_result.case_cong_weak outcome.case_cong_weak sum.case_cong_weak
  prod.case_cong_weak if_weak_cong

subsection \<open>Hexadecimal roots\<close>

text \<open>
  The root that \<^verbatim>\<open>Upload\<close> returns is \<open>root_of\<close> of the slice, and every root has 66
  characters, so the slice expression of line 100 never fails on a collected root.
\<close>

lemma length_Hex: "length (Hex h) = 66"
  by (simp add: Hex_def)

lemma Upload_root_of: "Upload e n d = (Inr (tx, r), n') \<Longrightarrow> root_of e d = Some r"
  by (auto simp: Upload_def root_of_def split: sum.splits prod.splits)

lemma root_of_length: "root_of e d = Some r \<Longrightarrow> length r = 66"
  by (auto simp: root_of_def length_Hex split: sum.splits)

lemma roots_long:
  "list_all2 (\<lambda>r d. root_of e d = Some r) rs ds \<Longrightarrow> list_all (\<lambda>r. 10 \<le> length r) rs"
  by (induction rs ds rule: list_all2_induct) (auto dest: root_of_length)

lemma Upload_idx_Download [simp]: "Upload (e\<lparr>idx_Download := f\<rparr>) n d = Upload e n d"
  by (simp add: Upload_def split: sum.split prod.split)

lemma Download_idx_Download [simp]: "Download (e\<lparr>idx_Download := f\<rparr>) n r out = f n r out False"
  by (simp add: Download_def)

subsection \<open>Windows of a file\<close>

text \<open>
  A read with a buffer of \<open>cs\<close> bytes at offset \<open>i * cs\<close> (or at the end of the file)
  delivers window \<open>i\<close>. The windows concatenate to a prefix, and the number of non-empty
  windows is the quotient rounded up.
\<close>

lemma visible_offset [simp]: "visible (f\<lparr>offset := k\<rparr>) = visible f"
  by (simp add: visible_def split: option.split)

lemma hits_fault_offset [simp]: "hits_fault (f\<lparr>offset := k\<rparr>) = hits_fault f"
  by (simp add: hits_fault_def split: option.split)

lemma healthy_visible: "visible (open_file S None) = S"
  by (simp add: visible_def open_file_def)

lemma visible_prefix: "take m (visible (open_file S flt)) = take (min m (length (visible (open_file S flt)))) S"
  by (auto simp: visible_def open_file_def min_def split: option.split)

lemma frag_length: "length (frag cs V j) = min cs (length V - j * cs)"
  by (simp add: frag_def)

lemma drop_min_length: "drop (min a (length V)) V = drop a V"
  by (cases "a \<le> length V") (simp_all add: min_def)

lemma ReadFull_frag:
  assumes "visible f = V" "length buf = cs" "offset f = min (i * cs) (length V)"
  shows "ReadFull f buf =
     ((length (frag cs V i),
       (if cs \<le> length (frag cs V i) then None
        else if hits_fault f then Some ErrOther
        else if length (frag cs V i) = 0 then Some EOF else Some ErrUnexpectedEOF)),
      frag cs V i @ drop (length (frag cs V i)) buf,
      f\<lparr>offset := min (Suc i * cs) (length V)\<rparr>)"
proof -
  have got: "take (length buf) (drop (offset f) (visible f)) = frag cs V i"
    using assms by (simp add: frag_def drop_min_length)
  have off: "offset f + length (frag cs V i) = min (Suc i * cs) (length V)"
    using assms by (auto simp: frag_length min_def)
  show ?thesis
    unfolding ReadFull_def Let_def got off using assms(2) by simp
qed

lemma ReadFull_same_file:
  "content (snd (snd (ReadFull f buf))) = content f \<and> fault (snd (snd (ReadFull f buf))) = fault f"
  by (simp add: ReadFull_def Let_def)

lemma frag_nonempty: "0 < cs \<Longrightarrow> k * cs < length V \<Longrightarrow> frag cs V k \<noteq> []"
  by (simp add: frag_def)

lemma frags_nonempty:
  assumes cs: "0 < cs" and k: "k = 0 \<or> (k - 1) * cs < length V"
  shows "list_all (\<lambda>d. d \<noteq> []) (map (frag cs V) [0..<k])"
proof -
  have "frag cs V j \<noteq> []" if "j < k" for j
  proof -
    from that k have "(k - 1) * cs < length V" by auto
    moreover from that have "j \<le> k - 1" by simp
    then have "j * cs \<le> (k - 1) * cs" by (rule mult_le_mono1)
    ultimately have "j * cs < length V" by (rule le_less_trans [rotated])
    with cs show ?thesis by (rule frag_nonempty)
  qed
  then show ?thesis by (simp add: list_all_iff)
qed

lemma concat_frags: "concat (map (frag cs V) [0..<k]) = take (k * cs) V"
proof (induction k)
  case 0
  show ?case by simp
next
  case (Suc k)
  have "take (k * cs) V @ take cs (drop (k * cs) V) = take (k * cs + cs) V"
    by (simp add: take_add)
  with Suc show ?case
    by (simp add: frag_def add.commute)
qed

lemma ceil_le: "0 < cs \<Longrightarrow> ((L + cs - 1) div cs \<le> j) = (L \<le> j * cs)" for L :: nat
proof -
  assume cs: "0 < cs"
  have "((L + cs - 1) div cs \<le> j) = ((L + cs - 1) div cs < Suc j)"
    by auto
  also have "\<dots> = (L + cs - 1 < Suc j * cs)"
    using cs by (simp only: div_less_iff_less_mult)
  also have "\<dots> = (L \<le> j * cs)"
    using cs by auto
  finally show ?thesis .
qed

lemma fragment_count_unique:
  assumes cs: "0 < cs" and k: "k \<le> 10" and stop: "k = 10 \<or> length V \<le> k * cs"
    and go: "k = 0 \<or> (k - 1) * cs < length V"
  shows "k = fragment_count cs V"
proof -
  let ?c = "(length V + cs - 1) div cs"
  have lower: "k \<le> ?c"
  proof (cases "k = 0")
    case False
    with go have "\<not> length V \<le> (k - 1) * cs" by simp
    then have "\<not> ?c \<le> k - 1" using ceil_le [OF cs] by simp
    then show ?thesis by simp
  qed simp
  from stop show ?thesis
  proof
    assume "k = 10"
    with lower show ?thesis by (simp add: fragment_count_def)
  next
    assume "length V \<le> k * cs"
    then have "?c \<le> k" using ceil_le [OF cs] by simp
    with lower k show ?thesis by (simp add: fragment_count_def)
  qed
qed

lemma take_count: 
  assumes "0 < cs"
  shows "take (fragment_count cs V * cs) V = take (10 * cs) V"
proof (cases "length V \<le> fragment_count cs V * cs")
  case True
  have "fragment_count cs V \<le> 10"
    by (simp add: fragment_count_def)
  then have "fragment_count cs V * cs \<le> 10 * cs"
    by (rule mult_le_mono1)
  with True have "length V \<le> 10 * cs"
    by (rule order_trans)
  with True show ?thesis
    by (simp only: take_all)
next
  case False
  then have "\<not> (length V + cs - 1) div cs \<le> fragment_count cs V"
    using ceil_le [OF assms, of "length V" "fragment_count cs V"] by simp
  then have "fragment_count cs V = 10"
    by (simp add: fragment_count_def min_def split: if_splits)
  then show ?thesis by simp
qed

subsection \<open>The upload loop\<close>

text \<open>
  \<open>upload_inv\<close> holds before iteration \<open>i\<close>; \<open>upload_post\<close> describes every way the loop
  can end.
\<close>

lemma upload_body_Continue:
  assumes inv: "upload_inv e cs V n0 i st" and cs: "0 < cs" and i: "i < 10"
    and b: "upload_body e i st = Continue st'"
  shows "upload_inv e cs V n0 (Suc i) st' \<and> i * cs < length V"
proof -
  from inv have V: "visible (src st) = V" and lb: "length (buffer st) = cs"
    and off: "offset (src st) = min (i * cs) (length V)"
    and snt: "sent st = map (frag cs V) [0..<i]"
    and rts: "list_all2 (\<lambda>r d. root_of e d = Some r) (roots st) (sent st)"
    and ft: "fetched st = []" "disk st = []"
    and nt: "net st = net_after e n0 (sent st)"
    by (auto simp: upload_inv_def)
  note rf = ReadFull_frag [OF V lb off]
  have ne: "frag cs V i \<noteq> []"
    using b by (auto simp: upload_body_def rf Let_def split: if_splits prod.splits sum.splits)
  then have lt: "i * cs < length V"
    by (auto simp: frag_def)
  have lenle: "length (frag cs V i) \<le> cs"
    by (simp add: frag_length)
  obtain tx r n' where up: "Upload e (net st) (frag cs V i) = (Inr (tx, r), n')"
    and st': "st' = st\<lparr>console := console st @ [UploadingChunk (i + 1)],
                     src := (src st)\<lparr>offset := min (Suc i * cs) (length V)\<rparr>,
                     buffer := frag cs V i @ drop (length (frag cs V i)) (buffer st),
                     sent := sent st @ [frag cs V i],
                     net := n',
                     roots := roots st @ [r],
                     console := console st @ [UploadingChunk (i + 1)] @ [UploadSucceeded r tx]\<rparr>"
    using b ne by (auto simp: upload_body_def rf Let_def split: if_splits prod.splits sum.splits)
  have r: "root_of e (frag cs V i) = Some r"
    using up by (rule Upload_root_of)
  show ?thesis
    using lt i lb lenle rts r ft V nt up
    by (simp add: st' upload_inv_def snt list_all2_appendI net_after_def)
qed

lemma upload_body_Break:
  assumes inv: "upload_inv e cs V n0 i st" and cs: "0 < cs"
    and b: "upload_body e i st = Break st'"
  shows "upload_inv e cs V n0 i st' \<and> length V \<le> i * cs \<and> net st' = net st"
proof -
  from inv have V: "visible (src st) = V" and lb: "length (buffer st) = cs"
    and off: "offset (src st) = min (i * cs) (length V)"
    by (auto simp: upload_inv_def)
  note rf = ReadFull_frag [OF V lb off]
  have e: "frag cs V i = []"
    using b by (auto simp: upload_body_def rf Let_def split: if_splits prod.splits sum.splits)
  then have le: "length V \<le> i * cs"
    using cs by (auto simp: frag_def)
  have st': "st' = st\<lparr>console := console st @ [UploadingChunk (i + 1)],
                     src := (src st)\<lparr>offset := min (Suc i * cs) (length V)\<rparr>,
                     buffer := buffer st\<rparr>"
    using b e by (auto simp: upload_body_def rf Let_def split: if_splits prod.splits sum.splits)
  show ?thesis
    using inv le cs by (auto simp: st' upload_inv_def min_def)
qed

lemma upload_body_Fatal:
  assumes inv: "upload_inv e cs V n0 i st" and cs: "0 < cs" and i: "i < 10"
    and b: "upload_body e i st = Fatal a st'"
  shows "upload_post e cs V n0 (Aborted a st')"
proof -
  from inv have V: "visible (src st) = V" and lb: "length (buffer st) = cs"
    and off: "offset (src st) = min (i * cs) (length V)"
    and snt: "sent st = map (frag cs V) [0..<i]"
    and rts: "list_all2 (\<lambda>r d. root_of e d = Some r) (roots st) (map (frag cs V) [0..<i])"
    and ft: "fetched st = []"
    and nt: "net st = net_after e n0 (map (frag cs V) [0..<i])"
    by (auto simp: upload_inv_def)
  note rf = ReadFull_frag [OF V lb off]
  have o1: "min (Suc i * cs) (length V) \<le> length V" "min (Suc i * cs) (length V) \<le> Suc i * cs"
    by simp_all
  show ?thesis
    using b i V snt rts ft o1 nt
    by (auto simp: upload_body_def rf Let_def upload_post_def frag_def net_after_def
        split: if_splits prod.splits sum.splits intro!: exI [of _ i])
qed

lemma upload_loop_post:
  "upload_inv e cs V n0 i st \<Longrightarrow> 0 < cs \<Longrightarrow> upload_post e cs V n0 (upload_loop e i st)"
proof (induction e i st rule: upload_loop.induct)
  case (1 e i st)
  show ?case
  proof (cases "i < 10")
    case False
    with "1.prems" have "i = 10" by (simp add: upload_inv_def)
    with "1.prems" show ?thesis
      by (auto simp: upload_loop.simps [of e 10 st] upload_post_def)
  next
    case True
    show ?thesis
    proof (cases "upload_body e i st")
      case (Fatal a st')
      then show ?thesis
        using upload_body_Fatal [OF "1.prems"(1,2) True Fatal] True
        by (simp add: upload_loop.simps [of e i st])
    next
      case (Break st')
      then show ?thesis
        using upload_body_Break [OF "1.prems"(1,2) Break] True
        by (auto simp: upload_loop.simps [of e i st] upload_post_def)
    next
      case (Continue st')
      then show ?thesis
        using upload_body_Continue [OF "1.prems"(1,2) True Continue] True
          "1.IH" [OF True Continue] "1.prems"(2)
        by (simp add: upload_loop.simps [of e i st])
    qed
  qed
qed

lemma upload_inv_init:
  "upload_inv e cs (visible (open_file S flt)) n 0 (init_state (open_file S flt) cs n)"
  by (simp add: upload_inv_def init_state_def open_file_def net_after_def)

lemma upload_inv_count:
  "upload_inv e cs V n0 k st \<Longrightarrow> 0 < cs \<Longrightarrow> k = 10 \<or> length V \<le> k * cs \<Longrightarrow> k = fragment_count cs V"
  by (rule fragment_count_unique) (auto simp: upload_inv_def)

lemma upload_body_same_file:
  "(upload_body e i st = Fatal a st' \<or> upload_body e i st = Break st' \<or>
    upload_body e i st = Continue st') \<Longrightarrow>
   content (src st') = content (src st) \<and> fault (src st') = fault (src st)"
  using ReadFull_same_file [of "src st" "buffer st"]
  by (auto simp: upload_body_def Let_def split: prod.splits if_splits sum.splits)

lemma upload_loop_same_file:
  "content (src (final (upload_loop e i st))) = content (src st) \<and>
   fault (src (final (upload_loop e i st))) = fault (src st)"
proof (induction e i st rule: upload_loop.induct)
  case (1 e i st)
  show ?case
  proof (cases "i < 10")
    case False
    then show ?thesis by (simp add: upload_loop.simps [of e i st])
  next
    case True
    show ?thesis
    proof (cases "upload_body e i st")
      case (Fatal a st')
      with True upload_body_same_file [of e i st a st'] show ?thesis
        by (simp add: upload_loop.simps [of e i st])
    next
      case (Break st')
      with True upload_body_same_file [of e i st _ st'] show ?thesis
        by (simp add: upload_loop.simps [of e i st])
    next
      case (Continue st')
      with True upload_body_same_file [of e i st _ st'] "1.IH" [OF True Continue] show ?thesis
        by (simp add: upload_loop.simps [of e i st])
    qed
  qed
qed

lemma upload_body_no_download_event:
  "(upload_body e i st = Fatal a st' \<or> upload_body e i st = Break st' \<or>
    upload_body e i st = Continue st') \<Longrightarrow>
   filter download_event (console st') = filter download_event (console st)"
  by (auto simp: upload_body_def Let_def download_event_def split: prod.splits if_splits sum.splits)

lemma upload_loop_no_download_event:
  "filter download_event (console (final (upload_loop e i st))) = filter download_event (console st)"
proof (induction e i st rule: upload_loop.induct)
  case (1 e i st)
  show ?case
  proof (cases "i < 10")
    case False
    then show ?thesis by (simp add: upload_loop.simps [of e i st])
  next
    case True
    show ?thesis
    proof (cases "upload_body e i st")
      case (Fatal a st')
      with True upload_body_no_download_event [of e i st a st'] show ?thesis
        by (simp add: upload_loop.simps [of e i st])
    next
      case (Break st')
      with True upload_body_no_download_event [of e i st _ st'] show ?thesis
        by (simp add: upload_loop.simps [of e i st])
    next
      case (Continue st')
      with True upload_body_no_download_event [of e i st _ st'] "1.IH" [OF True Continue] show ?thesis
        by (simp add: upload_loop.simps [of e i st])
    qed
  qed
qed

subsection \<open>The download loop\<close>

text \<open>
  On roots of at least 10 characters the loop always ends normally: it calls
  \<^verbatim>\<open>Download\<close> once per root and logs each result.
\<close>

lemma remove_file_added: "remove_file name ((name, got) # d) = remove_file name d"
  by (simp add: remove_file_def)

lemma remove_file_Nil: "remove_file name [] = []"
  by (simp add: remove_file_def)

lemma download_loop_run:
  assumes "list_all (\<lambda>r. 10 \<le> length r) rs"
  shows "\<exists>st'. download_loop e i rs st = Finished st' \<and>
           console st' = console st @ concat (map (download_log e (net st)) (List.enumerate i rs)) \<and>
           fetched st' = fetched st @ map (download_result e (net st)) (List.enumerate i rs) \<and>
           net st' = net st \<and> sent st' = sent st \<and> roots st' = roots st \<and>
           src st' = src st \<and> buffer st' = buffer st \<and>
           (disk st = [] \<longrightarrow> disk st' = [])"
  using assms
proof (induction rs arbitrary: i st)
  case Nil
  show ?case by simp
next
  case (Cons r rs)
  then have len: "\<not> length r < 10" and rest: "list_all (\<lambda>r. 10 \<le> length r) rs"
    by simp_all
  show ?case
  proof (cases "Download e (net st) r (outFile_name i)")
    case (Inl err)
    let ?st = "st\<lparr>console := console st @ [DownloadingChunk (i + 1) (take 10 r @ ''...'')],
                  fetched := fetched st @ [Inl err],
                  console := (console st @ [DownloadingChunk (i + 1) (take 10 r @ ''...'')]) @ [DownloadFailed err]\<rparr>"
    have step: "download_loop e i (r # rs) st = download_loop e (Suc i) rs ?st"
      using len Inl by (simp add: outFile_name_def Let_def)
    from Cons.IH [OF rest, of "Suc i" ?st] show ?thesis
      unfolding step using Inl
      by (auto simp: download_log_def download_result_def)
  next
    case (Inr got)
    let ?st = "st\<lparr>console := console st @ [DownloadingChunk (i + 1) (take 10 r @ ''...'')],
                  fetched := fetched st @ [Inr got],
                  console := (console st @ [DownloadingChunk (i + 1) (take 10 r @ ''...'')])
                              @ [DownloadSucceeded (outFile_name i)],
                  disk := remove_file (outFile_name i) ((outFile_name i, got) # disk st)\<rparr>"
    have step: "download_loop e i (r # rs) st = download_loop e (Suc i) rs ?st"
      using len Inr by (simp add: outFile_name_def Let_def)
    from Cons.IH [OF rest, of "Suc i" ?st] show ?thesis
      unfolding step using Inr
      by (auto simp: download_log_def download_result_def remove_file_added remove_file_Nil)
  qed
qed

lemma download_loop_src: "src (final (download_loop e i rs st)) = src st"
  by (induction rs arbitrary: i st) (auto simp: Let_def split: sum.splits)

lemma filter_download_log:
  "filter download_event (concat (map (download_log e n) jrs)) = concat (map (download_log e n) jrs)"
  by (induction jrs) (auto simp: download_log_def download_event_def split: sum.splits)

lemma map_enumerate_snd: "map (\<lambda>jr. g (snd jr)) (List.enumerate i rs) = map g rs"
  by (induction rs arbitrary: i) simp_all

subsection \<open>The whole run\<close>

lemma main_steps_Aborted:
  assumes "main_steps e (open_file S flt) cs n = Aborted a st" and "0 < cs"
  shows "upload_post e cs (visible (open_file S flt)) n (Aborted a st)"
proof -
  let ?V = "visible (open_file S flt)"
  let ?up = "upload_loop e 0 (init_state (open_file S flt) cs n)"
  have post: "upload_post e cs ?V n ?up"
    using upload_inv_init assms(2) by (rule upload_loop_post)
  show ?thesis
  proof (cases ?up)
    case (Aborted a' st')
    with assms(1) post show ?thesis
      by (simp add: main_steps_def)
  next
    case (Finished st')
    with post obtain k where "upload_inv e cs ?V n k st'"
      by (auto simp: upload_post_def)
    then have "list_all (\<lambda>r. 10 \<le> length r) (roots st')"
      by (auto simp: upload_inv_def intro: roots_long)
    from download_loop_run [OF this, of e 0 st'] assms(1) Finished show ?thesis
      by (auto simp: main_steps_def)
  qed
qed

lemma main_steps_Finished:
  assumes "main_steps e (open_file S flt) cs n = Finished st" and "0 < cs"
  shows "\<exists>k up. upload_loop e 0 (init_state (open_file S flt) cs n) = Finished up \<and>
           upload_inv e cs (visible (open_file S flt)) n k up \<and>
           (k = 10 \<or> length (visible (open_file S flt)) \<le> k * cs) \<and>
           console st = console up @ concat (map (download_log e (net up)) (List.enumerate 0 (roots up)))
                          @ [AllDone] \<and>
           fetched st = map (download_result e (net up)) (List.enumerate 0 (roots up)) \<and>
           net st = net up \<and> sent st = sent up \<and> roots st = roots up \<and>
           src st = src up \<and> buffer st = buffer up \<and> disk st = []"
proof -
  let ?V = "visible (open_file S flt)"
  let ?up = "upload_loop e 0 (init_state (open_file S flt) cs n)"
  have post: "upload_post e cs ?V n ?up"
    using upload_inv_init assms(2) by (rule upload_loop_post)
  show ?thesis
  proof (cases ?up)
    case (Aborted a' st')
    with assms(1) show ?thesis
      by (simp add: main_steps_def)
  next
    case (Finished st')
    with post obtain k where k: "upload_inv e cs ?V n k st'" "k = 10 \<or> length ?V \<le> k * cs"
      by (auto simp: upload_post_def)
    then have "list_all (\<lambda>r. 10 \<le> length r) (roots st')"
      by (auto simp: upload_inv_def intro: roots_long)
    from download_loop_run [OF this, of e 0 st'] obtain st'' where
      d: "download_loop e 0 (roots st') st' = Finished st''"
      and rest: "console st'' = console st' @ concat (map (download_log e (net st')) (List.enumerate 0 (roots st')))"
        "fetched st'' = fetched st' @ map (download_result e (net st')) (List.enumerate 0 (roots st'))"
        "net st'' = net st'" "sent st'' = sent st'" "roots st'' = roots st'"
        "src st'' = src st'" "buffer st'' = buffer st'" "disk st' = [] \<longrightarrow> disk st'' = []"
      by blast
    have st: "st = st''\<lparr>console := console st'' @ [AllDone]\<rparr>"
      using assms(1) Finished d by (simp add: main_steps_def)
    have f0: "fetched st' = []" "disk st' = []"
      using k(1) by (simp_all add: upload_inv_def)
    show ?thesis
      using k rest f0 Finished by (auto simp: st)
  qed
qed

lemma main_steps_zero_buffer:
  "main_steps e (open_file S flt) 0 n =
     Finished \<lparr>src = open_file S flt, buffer = [], roots = [], net = n, disk = [],
               console = [UploadingChunk 1, AllDone], sent = [], fetched = []\<rparr>"
  by (simp add: main_steps_def upload_loop.simps [of e 0] upload_body_def ReadFull_def Let_def
      init_state_def open_file_def)

lemma sent_prefix:
  assumes "sent st = map (frag cs (visible (open_file S flt))) [0..<k]"
  shows "concat (sent st) = take (length (concat (sent st))) S \<and> length (concat (sent st)) \<le> k * cs"
proof -
  let ?V = "visible (open_file S flt)"
  have c: "concat (sent st) = take (k * cs) ?V"
    by (simp add: assms concat_frags)
  have l: "length (concat (sent st)) = min (k * cs) (length ?V)"
    by (simp add: c min.commute)
  show ?thesis
    unfolding l unfolding c by (simp add: visible_prefix)
qed

lemma main_steps_bounds:
  assumes "0 < cs"
  shows "length (sent (final (main_steps e (open_file S flt) cs n))) \<le> 10 \<and>
         length (roots (final (main_steps e (open_file S flt) cs n))) \<le> 10 \<and>
         offset (src (final (main_steps e (open_file S flt) cs n))) \<le> 10 * cs \<and>
         concat (sent (final (main_steps e (open_file S flt) cs n))) =
           take (length (concat (sent (final (main_steps e (open_file S flt) cs n))))) S \<and>
         length (concat (sent (final (main_steps e (open_file S flt) cs n)))) \<le> 10 * cs"
proof (cases "main_steps e (open_file S flt) cs n")
  case (Finished st)
  from main_steps_Finished [OF Finished assms] obtain k up where
    inv: "upload_inv e cs (visible (open_file S flt)) n k up"
    and eq: "sent st = sent up" "roots st = roots up" "src st = src up"
    by blast
  from inv have k: "k \<le> 10" and s: "sent up = map (frag cs (visible (open_file S flt))) [0..<k]"
    and r: "length (roots up) = length (sent up)"
    and o: "offset (src up) \<le> k * cs"
    by (auto simp: upload_inv_def dest: list_all2_lengthD)
  from sent_prefix [of st cs S flt k] s eq have
    p: "concat (sent st) = take (length (concat (sent st))) S" "length (concat (sent st)) \<le> k * cs"
    by simp_all
  have kc: "k * cs \<le> 10 * cs" using k by simp
  have o': "offset (src up) \<le> 10 * cs" using o kc by (rule order_trans)
  have p': "length (concat (sent st)) \<le> 10 * cs" using p(2) kc by (rule order_trans)
  have ls: "length (sent st) \<le> 10" "length (roots st) \<le> 10"
    using eq s r k by simp_all
  show ?thesis
    unfolding Finished final.simps using ls o' p' p(1) eq(3) by simp
next
  case (Aborted a st)
  from main_steps_Aborted [OF Aborted assms] obtain k where k: "k < 10"
    and o: "offset (src st) \<le> Suc k * cs"
    and r: "list_all2 (\<lambda>r d. root_of e d = Some r) (roots st) (map (frag cs (visible (open_file S flt))) [0..<k])"
    and c: "case a of
              ReadFailed err \<Rightarrow> sent st = map (frag cs (visible (open_file S flt))) [0..<k]
            | ChunkUploadFailed j uerr \<Rightarrow> sent st = map (frag cs (visible (open_file S flt))) [0..<Suc k]
            | SliceOutOfRange \<Rightarrow> False"
    unfolding upload_post_def outcome.case by (cases a) auto
  have s: "sent st = map (frag cs (visible (open_file S flt))) [0..<k] \<or>
           sent st = map (frag cs (visible (open_file S flt))) [0..<Suc k]"
    using c by (cases a) simp_all
  from s obtain k' where k': "k' \<le> 10" "sent st = map (frag cs (visible (open_file S flt))) [0..<k']"
    using k by (auto intro: that [of k] that [of "Suc k"])
  from sent_prefix [OF k'(2)] have
    p: "concat (sent st) = take (length (concat (sent st))) S" "length (concat (sent st)) \<le> k' * cs"
    by simp_all
  have kc: "k' * cs \<le> 10 * cs" "Suc k * cs \<le> 10 * cs" using k k' by simp_all
  have lr: "length (roots st) \<le> 10" using r k by (auto dest: list_all2_lengthD)
  have o': "offset (src st) \<le> 10 * cs" using o kc(2) by (rule order_trans)
  have p': "length (concat (sent st)) \<le> 10 * cs" using p(2) kc(1) by (rule order_trans)
  have ls: "length (sent st) \<le> 10" using k' by simp
  show ?thesis
    unfolding Aborted final.simps using ls lr o' p' p(1) by simp
qed

lemma main_steps_same_file:
  "content (src (final (main_steps e f cs n))) = content f \<and>
   fault (src (final (main_steps e f cs n))) = fault f"
proof (cases "upload_loop e 0 (init_state f cs n)")
  case (Aborted a st)
  with upload_loop_same_file [of e 0 "init_state f cs n"] show ?thesis
    by (simp add: main_steps_def init_state_def)
next
  case (Finished st)
  with upload_loop_same_file [of e 0 "init_state f cs n"] download_loop_src [of e 0 "roots st" st]
  show ?thesis
    by (cases "download_loop e 0 (roots st) st") (simp_all add: main_steps_def init_state_def)
qed

lemma healthy_no_read_failure:
  assumes "0 < cs"
  shows "failure (main_steps e (open_file S None) cs n) \<noteq> Some (ReadFailed err)"
proof
  assume f: "failure (main_steps e (open_file S None) cs n) = Some (ReadFailed err)"
  let ?up = "upload_loop e 0 (init_state (open_file S None) cs n)"
  have post: "upload_post e cs (visible (open_file S None)) n ?up"
    using upload_inv_init assms by (rule upload_loop_post)
  show False
  proof (cases ?up)
    case (Aborted a st)
    with f have a: "a = ReadFailed err"
      by (simp add: main_steps_def)
    from post have "hits_fault (src st)"
      unfolding Aborted a by (auto simp: upload_post_def)
    moreover from upload_loop_same_file [of e 0 "init_state (open_file S None) cs n"]
    have "fault (src st) = None"
      unfolding Aborted by (simp add: init_state_def open_file_def)
    ultimately show False
      by (simp add: hits_fault_def)
  next
    case (Finished st)
    with post obtain k where "upload_inv e cs (visible (open_file S None)) n k st"
      by (auto simp: upload_post_def)
    then have "list_all (\<lambda>r. 10 \<le> length r) (roots st)"
      by (auto simp: upload_inv_def intro: roots_long)
    from download_loop_run [OF this, of e 0 st] f Finished show False
      by (auto simp: main_steps_def)
  qed
qed

lemma finished_run:
  fixes e :: "'n env" and S flt cs n
  defines "V \<equiv> visible (open_file S flt)"
    and "st \<equiv> final (main_steps e (open_file S flt) cs n)"
  assumes fin: "failure (main_steps e (open_file S flt) cs n) = None" and cs: "0 < cs"
  shows "sent st = map (frag cs V) [0..<fragment_count cs V]"
    and "list_all2 (\<lambda>r d. root_of e d = Some r) (roots st) (sent st)"
    and "list_all (\<lambda>d. d \<noteq> []) (sent st)"
    and "net st = net_after e n (sent st)"
    and "fetched st = map (download_result e (net st)) (List.enumerate 0 (roots st))"
    and "offset (src st) = min (fragment_count cs V * cs) (length V)"
    and "disk st = []"
proof -
  from fin obtain st' where t: "main_steps e (open_file S flt) cs n = Finished st'"
    by (cases "main_steps e (open_file S flt) cs n") simp_all
  then have st: "st = st'" by (simp add: st_def)
  from main_steps_Finished [OF t cs] obtain k up where
    inv: "upload_inv e cs V n k up" and stop: "k = 10 \<or> length V \<le> k * cs"
    and eq: "sent st = sent up" "roots st = roots up" "net st = net up" "src st = src up"
      "fetched st = map (download_result e (net up)) (List.enumerate 0 (roots up))" "disk st = []"
    unfolding V_def st by blast
  have k: "k = fragment_count cs V"
    using inv cs stop by (rule upload_inv_count)
  from inv have go: "k = 0 \<or> (k - 1) * cs < length V"
    by (simp add: upload_inv_def)
  show "sent st = map (frag cs V) [0..<fragment_count cs V]"
    using inv eq k by (simp add: upload_inv_def)
  then show "list_all (\<lambda>d. d \<noteq> []) (sent st)"
    using frags_nonempty [OF cs go] k by simp
  show "list_all2 (\<lambda>r d. root_of e d = Some r) (roots st) (sent st)"
    using inv eq(1,2) by (auto simp: upload_inv_def)
  show "net st = net_after e n (sent st)"
    using inv eq by (simp add: upload_inv_def)
  show "fetched st = map (download_result e (net st)) (List.enumerate 0 (roots st))"
    using eq by simp
  show "offset (src st) = min (fragment_count cs V * cs) (length V)"
    using inv eq k by (simp add: upload_inv_def)
  show "disk st = []" by (rule eq)
qed

lemma finished_sent_concat:
  assumes "failure (main_steps e (open_file S flt) cs n) = None" and "0 < cs"
  shows "concat (sent (final (main_steps e (open_file S flt) cs n))) =
           take (10 * cs) (visible (open_file S flt))"
  by (simp add: finished_run(1) [OF assms] concat_frags take_count [OF assms(2)])

lemma finished_console:
  assumes fin: "failure (main_steps e (open_file S flt) cs n) = None" and cs: "0 < cs"
  shows "filter download_event (console (final (main_steps e (open_file S flt) cs n))) =
           concat (map (download_log e (net (final (main_steps e (open_file S flt) cs n))))
                    (List.enumerate 0 (roots (final (main_steps e (open_file S flt) cs n)))))"
proof -
  from fin obtain st where t: "main_steps e (open_file S flt) cs n = Finished st"
    by (cases "main_steps e (open_file S flt) cs n") simp_all
  from main_steps_Finished [OF t cs] obtain up where
    u: "upload_loop e 0 (init_state (open_file S flt) cs n) = Finished up"
    and c: "console st = console up @ concat (map (download_log e (net up)) (List.enumerate 0 (roots up))) @ [AllDone]"
    and eq: "net st = net up" "roots st = roots up"
    by blast
  from upload_loop_no_download_event [of e 0 "init_state (open_file S flt) cs n"]
  have "filter download_event (console up) = []"
    unfolding u by (simp add: init_state_def)
  then show ?thesis
    unfolding t using eq by (simp add: c filter_download_log download_event_def)
qed

lemma short_file_sent:
  assumes "failure (main_steps e (open_file S None) cs n) = None" and "0 < cs"
    and "length S \<le> 10 * cs"
  shows "concat (sent (final (main_steps e (open_file S None) cs n))) = S"
  using finished_sent_concat [OF assms(1,2)] assms(3) by (simp add: healthy_visible)

subsection \<open>The network without failures\<close>

text \<open>
  Every upload of a non-empty slice succeeds, so a run on a healthy file ends normally;
  a download returns the slice uploaded under the root when no other slice has the same
  root.
\<close>

lemma honest_Upload:
  "d \<noteq> [] \<Longrightarrow> Upload (honest_env m) n d = (Inr (Hex (m d), Hex (m d)), (Hex (m d), d) # n)"
  by (simp add: Upload_def honest_env_def)

lemma honest_Download:
  "Download (honest_env m) n r out =
     (case map_of n r of None \<Rightarrow> Inl ''file not found'' | Some d \<Rightarrow> Inr d)"
  by (simp add: Download_def honest_env_def)

lemma honest_root_of: "d \<noteq> [] \<Longrightarrow> root_of (honest_env m) d = Some (Hex (m d))"
  by (simp add: root_of_def honest_env_def)

lemma honest_net_after:
  "list_all (\<lambda>d. d \<noteq> []) ds \<Longrightarrow>
     net_after (honest_env m) n ds = rev (map (\<lambda>d. (Hex (m d), d)) ds) @ n"
  unfolding net_after_def
  by (induction ds arbitrary: n) (simp_all add: honest_Upload)

lemma map_of_latest:
  assumes "x \<in> set xs" and "\<forall>y\<in>set xs. key y = key x \<longrightarrow> y = x"
  shows "map_of (rev (map (\<lambda>d. (key d, d)) xs) @ n) (key x) = Some x"
  using assms
proof (induction xs rule: rev_induct)
  case Nil
  then show ?case by simp
next
  case (snoc a xs)
  show ?case
  proof (cases "key a = key x")
    case True
    with snoc.prems(2) have "a = x" by simp
    with True show ?thesis by simp
  next
    case False
    with snoc.prems have "x \<in> set xs" "\<forall>y\<in>set xs. key y = key x \<longrightarrow> y = x"
      by auto
    with snoc.IH False show ?thesis by simp
  qed
qed

lemma honest_finishes:
  assumes cs: "0 < cs"
  shows "failure (main_steps (honest_env m) (open_file S None) cs n) = None"
proof (cases "main_steps (honest_env m) (open_file S None) cs n")
  case (Finished st)
  then show ?thesis by simp
next
  case (Aborted a st)
  from main_steps_Aborted [OF Aborted cs] obtain k where
    c: "case a of
          ReadFailed err \<Rightarrow> True
        | ChunkUploadFailed j uerr \<Rightarrow>
            k * cs < length (visible (open_file S None)) \<and>
            fst (Upload (honest_env m) (net_after (honest_env m) n (map (frag cs (visible (open_file S None))) [0..<k]))
                  (frag cs (visible (open_file S None)) k)) = Inl uerr
        | SliceOutOfRange \<Rightarrow> False"
    unfolding upload_post_def outcome.case by (cases a) auto
  show ?thesis
  proof (cases a)
    case (ReadFailed err)
    with Aborted healthy_no_read_failure [OF cs, of "honest_env m" S n err] show ?thesis
      by simp
  next
    case (ChunkUploadFailed j uerr)
    with c have lt: "k * cs < length (visible (open_file S None))"
      and u: "fst (Upload (honest_env m) (net_after (honest_env m) n (map (frag cs (visible (open_file S None))) [0..<k]))
                  (frag cs (visible (open_file S None)) k)) = Inl uerr"
      by simp_all
    from frag_nonempty [OF cs lt] u show ?thesis
      by (simp add: honest_Upload)
  next
    case SliceOutOfRange
    with c show ?thesis by simp
  qed
qed

lemma honest_roots:
  assumes "list_all2 (\<lambda>r d. root_of (honest_env m) d = Some r) rs ds" and "list_all (\<lambda>d. d \<noteq> []) ds"
  shows "rs = map (\<lambda>d. Hex (m d)) ds"
  using assms by (induction rs ds rule: list_all2_induct) (simp_all add: honest_root_of)

lemma honest_roundtrip:
  fixes S :: bytes and m cs n
  defines "st \<equiv> final (main_steps (honest_env m) (open_file S None) cs n)"
  assumes cs: "0 < cs"
    and distinct_roots: "\<forall>x\<in>set (sent st). \<forall>y\<in>set (sent st). Hex (m y) = Hex (m x) \<longrightarrow> y = x"
  shows "fetched st = map Inr (sent st)"
proof -
  note fin = honest_finishes [OF cs, of m S n]
  note run = finished_run [OF fin cs, folded st_def]
  have rs: "roots st = map (\<lambda>d. Hex (m d)) (sent st)"
    using run(2,3) by (rule honest_roots)
  have nt: "net st = rev (map (\<lambda>d. (Hex (m d), d)) (sent st)) @ n"
    using run(4) honest_net_after [OF run(3)] by simp
  have dl: "download_result (honest_env m) (net st) = (\<lambda>jr. case map_of (net st) (snd jr) of
              None \<Rightarrow> Inl ''file not found'' | Some d \<Rightarrow> Inr d)"
    by (auto simp: download_result_def honest_Download fun_eq_iff)
  have "fetched st = map (\<lambda>r. case map_of (net st) r of None \<Rightarrow> Inl ''file not found'' | Some d \<Rightarrow> Inr d)
                       (roots st)"
    unfolding run(5) dl by (rule map_enumerate_snd)
  also have "\<dots> = map Inr (sent st)"
    unfolding rs nt map_map
  proof (rule map_cong [OF refl])
    fix x assume x: "x \<in> set (sent st)"
    with distinct_roots have "\<forall>y\<in>set (sent st). Hex (m y) = Hex (m x) \<longrightarrow> y = x"
      by simp
    from map_of_latest [of x "sent st" "\<lambda>d. Hex (m d)", OF x this]
    show "((\<lambda>r. case map_of (rev (map (\<lambda>d. (Hex (m d), d)) (sent st)) @ n) r of
                None \<Rightarrow> Inl ''file not found'' | Some d \<Rightarrow> Inr d) \<circ> (\<lambda>d. Hex (m d))) x = Inr x"
      by simp
  qed
  finally show ?thesis .
qed

lemma fetched_bytes_Inr: "fetched_bytes (map Inr ds) = concat ds"
  by (simp add: fetched_bytes_def comp_def)

lemma short_file_roundtrip:
  fixes S :: bytes and m cs n
  defines "st \<equiv> final (main_steps (honest_env m) (open_file S None) cs n)"
  assumes cs: "0 < cs" and len: "length S \<le> 10 * cs"
    and distinct_roots: "\<forall>x\<in>set (sent st). \<forall>y\<in>set (sent st). Hex (m y) = Hex (m x) \<longrightarrow> y = x"
  shows "fetched_bytes (fetched st) = S"
proof -
  have "fetched st = map Inr (sent st)"
    unfolding st_def using cs distinct_roots [unfolded st_def] by (rule honest_roundtrip)
  then have "fetched_bytes (fetched st) = concat (sent st)"
    by (simp add: fetched_bytes_Inr)
  also have "\<dots> = S"
    unfolding st_def using honest_finishes [OF cs] cs len by (rule short_file_sent)
  finally show ?thesis .
qed

lemma limited_Upload_full:
  "d \<noteq> [] \<Longrightarrow> cap \<le> length n \<Longrightarrow>
     Upload (limited_env m cap) n d = (Inl (UploadFailed ''no storage node available''), n)"
  by (simp add: Upload_def limited_env_def honest_env_def)

lemma limited_Upload_room:
  "d \<noteq> [] \<Longrightarrow> length n < cap \<Longrightarrow>
     Upload (limited_env m cap) n d = (Inr (Hex (m d), Hex (m d)), (Hex (m d), d) # n)"
  by (simp add: Upload_def limited_env_def honest_env_def)

lemma limited_Download:
  "Download (limited_env m cap) n r out =
     (case map_of n r of None \<Rightarrow> Inl ''file not found'' | Some d \<Rightarrow> Inr d)"
  by (simp add: Download_def limited_env_def honest_env_def)

subsection \<open>The run of the program on its own test file\<close>

text \<open>
  The file has 4294967296 zero bytes, the buffer 419430400: the loop handles 10 windows
  of 419430400 zero bytes each.
\<close>

lemma test_file: "createDummyFile LargeFileSize = Inr (replicate 4294967296 0)"
proof -
  have "replicate 4294967295 (0 :: byte) @ [0] = replicate (Suc 4294967295) 0"
    by (simp only: replicate_append_same replicate_Suc)
  then show ?thesis
    by (simp add: createDummyFile_def LargeFileSize_def)
qed

lemma main_run:
  "main e n = Inr (main_steps e (open_file (replicate 4294967296 0) None) ChunkSize n)"
  by (simp add: main_def test_file)

lemma test_file_count: "fragment_count ChunkSize (replicate 4294967296 (0 :: byte)) = 10"
  by (simp add: fragment_count_def ChunkSize_def)

lemma test_file_frag:
  assumes "j < 10"
  shows "frag ChunkSize (replicate 4294967296 (0 :: byte)) j = replicate ChunkSize 0"
proof -
  from assms have "Suc j * ChunkSize \<le> 10 * ChunkSize"
    by (intro mult_le_mono1) simp
  then have "ChunkSize \<le> 4294967296 - j * ChunkSize"
    by (simp add: ChunkSize_def)
  then show ?thesis
    by (simp add: frag_def min_def)
qed

lemma main_sent:
  assumes "failure (main_steps e (open_file (replicate 4294967296 0) None) ChunkSize n) = None"
  shows "sent (final (main_steps e (open_file (replicate 4294967296 0) None) ChunkSize n)) =
           replicate 10 (replicate ChunkSize 0)"
proof -
  have cs: "0 < ChunkSize" by (simp add: ChunkSize_def)
  have "sent (final (main_steps e (open_file (replicate 4294967296 0) None) ChunkSize n)) =
          map (frag ChunkSize (replicate 4294967296 0)) [0..<10]"
    using finished_run(1) [OF assms cs] by (simp add: healthy_visible test_file_count)
  also have "\<dots> = map (\<lambda>j. replicate ChunkSize 0) [0..<10]"
    by (rule map_cong [OF refl]) (simp add: test_file_frag)
  also have "\<dots> = replicate 10 (replicate ChunkSize 0)"
    by (simp add: map_replicate_const)
  finally show ?thesis .
qed

lemma concat_replicate_zeros: "concat (replicate k (replicate c (0 :: byte))) = replicate (k * c) 0"
  by (induction k) (simp_all add: replicate_add)

lemma main_honest_fetched:
  "fetched (final (main_steps (honest_env m) (open_file (replicate 4294967296 0) None) ChunkSize n)) =
     replicate 10 (Inr (replicate ChunkSize 0))"
proof -
  have cs: "0 < ChunkSize" by (simp add: ChunkSize_def)
  note s = main_sent [OF honest_finishes [OF cs], of m n]
  have "fetched (final (main_steps (honest_env m) (open_file (replicate 4294967296 0) None) ChunkSize n)) =
          map Inr (sent (final (main_steps (honest_env m) (open_file (replicate 4294967296 0) None) ChunkSize n)))"
    by (rule honest_roundtrip [OF cs]) (simp add: s)
  then show ?thesis
    by (simp add: s)
qed

subsection \<open>Small runs, evaluated\<close>

lemma toy_hex:
  "Hex (toy_root [1, 2]) = ''0x0000000000000000000000000000000000000000000000000000000000010102''"
  "Hex (toy_root [3]) = ''0x0000000000000000000000000000000000000000000000000000000000000103''"
  by code_simp+

lemma toy_hex_9:
  "Hex (toy_root [9]) = ''0x0000000000000000000000000000000000000000000000000000000000000109''"
  by code_simp

lemmas small_run = main_steps_def upload_body_def init_state_def open_file_def ReadFull_def
  visible_def hits_fault_def Let_def upload_loop.simps remove_file_def honest_Upload toy_hex
  itoa.simps [of 0]

lemma offline_run:
  "main_steps ((honest_env toy_root)\<lparr>idx_Download := (\<lambda>n r out p. Inl ''timeout'')\<rparr>)
       (open_file [1, 2] None) 2 [] =
     Finished
       \<lparr>src = \<lparr>content = [1, 2], offset = 2, fault = None\<rparr>,
        buffer = [1, 2],
        roots = [''0x0000000000000000000000000000000000000000000000000000000000010102''],
        net = [(''0x0000000000000000000000000000000000000000000000000000000000010102'', [1, 2])],
        disk = [],
        console =
          [UploadingChunk 1,
           UploadSucceeded ''0x0000000000000000000000000000000000000000000000000000000000010102''
             ''0x0000000000000000000000000000000000000000000000000000000000010102'',
           UploadingChunk 2,
           DownloadingChunk 1 ''0x00000000...'',
           DownloadFailed ''timeout'',
           AllDone],
        sent = [[1, 2]],
        fetched = [Inl ''timeout'']\<rparr>"
  by (simp add: small_run cong: run_congs)

lemma corrupt_run:
  "main_steps ((honest_env toy_root)\<lparr>idx_Download := (\<lambda>n r out p. Inr [9])\<rparr>)
       (open_file [1, 2] None) 2 [] =
     Finished
       \<lparr>src = \<lparr>content = [1, 2], offset = 2, fault = None\<rparr>,
        buffer = [1, 2],
        roots = [''0x0000000000000000000000000000000000000000000000000000000000010102''],
        net = [(''0x0000000000000000000000000000000000000000000000000000000000010102'', [1, 2])],
        disk = [],
        console =
          [UploadingChunk 1,
           UploadSucceeded ''0x0000000000000000000000000000000000000000000000000000000000010102''
             ''0x0000000000000000000000000000000000000000000000000000000000010102'',
           UploadingChunk 2,
           DownloadingChunk 1 ''0x00000000...'',
           DownloadSucceeded ''downloaded_chunk_0.bin'',
           AllDone],
        sent = [[1, 2]],
        fetched = [Inr [9]]\<rparr>"
  by (simp add: small_run cong: run_congs)

lemma roomy_run:
  "main_steps (limited_env toy_root 5) (open_file [1, 2, 3] None) 2 [] =
     Finished
       \<lparr>src = \<lparr>content = [1, 2, 3], offset = 3, fault = None\<rparr>,
        buffer = [3, 2],
        roots = [''0x0000000000000000000000000000000000000000000000000000000000010102'',
                 ''0x0000000000000000000000000000000000000000000000000000000000000103''],
        net = [(''0x0000000000000000000000000000000000000000000000000000000000000103'', [3]),
               (''0x0000000000000000000000000000000000000000000000000000000000010102'', [1, 2])],
        disk = [],
        console =
          [UploadingChunk 1,
           UploadSucceeded ''0x0000000000000000000000000000000000000000000000000000000000010102''
             ''0x0000000000000000000000000000000000000000000000000000000000010102'',
           UploadingChunk 2,
           UploadSucceeded ''0x0000000000000000000000000000000000000000000000000000000000000103''
             ''0x0000000000000000000000000000000000000000000000000000000000000103'',
           UploadingChunk 3,
           DownloadingChunk 1 ''0x00000000...'',
           DownloadSucceeded ''downloaded_chunk_0.bin'',
           DownloadingChunk 2 ''0x00000000...'',
           DownloadSucceeded ''downloaded_chunk_1.bin'',
           AllDone],
        sent = [[1, 2], [3]],
        fetched = [Inr [1, 2], Inr [3]]\<rparr>"
  by (simp add: main_steps_def upload_body_def init_state_def open_file_def ReadFull_def
      visible_def hits_fault_def Let_def upload_loop.simps remove_file_def limited_Upload_room
      limited_Download toy_hex itoa.simps [of 0] itoa.simps [of "Suc 0"] cong: run_congs)

lemma full_run:
  "main_steps (limited_env toy_root 1) (open_file [1, 2, 3] None) 2 [] =
     Aborted (ChunkUploadFailed 2 (UploadFailed ''no storage node available''))
       \<lparr>src = \<lparr>content = [1, 2, 3], offset = 3, fault = None\<rparr>,
        buffer = [3, 2],
        roots = [''0x0000000000000000000000000000000000000000000000000000000000010102''],
        net = [(''0x0000000000000000000000000000000000000000000000000000000000010102'', [1, 2])],
        disk = [],
        console =
          [UploadingChunk 1,
           UploadSucceeded ''0x0000000000000000000000000000000000000000000000000000000000010102''
             ''0x0000000000000000000000000000000000000000000000000000000000010102'',
           UploadingChunk 2],
        sent = [[1, 2], [3]],
        fetched = []\<rparr>"
  by (simp add: main_steps_def upload_body_def init_state_def open_file_def ReadFull_def
      visible_def hits_fault_def Let_def upload_loop.simps remove_file_def limited_Upload_room
      limited_Upload_full toy_hex cong: run_congs)

subsection \<open>The command-line driver\<close>

text \<open>
  What \<^verbatim>\<open>parseRootHash\<close> returns, when it is not empty, is a piece of the text of the
  shape the pattern asks for.
\<close>

lemma match_at_Some:
  assumes "match_at s = Some (whole, sub)"
  shows "length sub = 66 \<and> take 2 sub = ''0x'' \<and> list_all is_hex (drop 2 sub) \<and>
         (\<exists>seps b. s = ''root'' @ seps @ sub @ b \<and> seps \<noteq> [] \<and> list_all is_sep seps)"
proof -
  let ?seps = "takeWhile is_sep (drop 4 s)"
  let ?t = "dropWhile is_sep (drop 4 s)"
  from assms have r: "take 4 s = ''root''" and ne: "?seps \<noteq> []" and x: "take 2 ?t = ''0x''"
    and len: "64 \<le> length (drop 2 ?t)" and hex: "list_all is_hex (take 64 (drop 2 ?t))"
    and sub: "sub = take 66 ?t"
    by (auto simp: match_at_def Let_def split: if_splits)
  from len have l: "length sub = 66"
    by (simp add: sub)
  have d: "drop 2 sub = take 64 (drop 2 ?t)"
    by (simp add: sub drop_take)
  have t2: "take 2 sub = ''0x''"
    using x by (simp add: sub)
  have "s = take 4 s @ drop 4 s" by simp
  also have "drop 4 s = ?seps @ ?t" by simp
  also have "?t = sub @ drop 66 ?t" by (simp add: sub)
  finally have "s = ''root'' @ ?seps @ sub @ drop 66 ?t"
    using r by simp
  moreover have "list_all is_sep ?seps"
    by (simp add: list_all_iff) (meson set_takeWhileD)
  ultimately show ?thesis
    using l t2 hex d ne by metis
qed

lemma FindStringSubmatch_cases:
  "FindStringSubmatch s = [] \<or>
   (\<exists>a s' whole sub. s = a @ s' \<and> match_at s' = Some (whole, sub) \<and>
      FindStringSubmatch s = [whole, sub])"
proof (induction s)
  case Nil
  show ?case by simp
next
  case (Cons c s)
  show ?case
  proof (cases "match_at (c # s)")
    case None
    with Cons show ?thesis
      by (auto intro: exI [of _ "c # _"])
  next
    case (Some ws)
    obtain whole sub where ws: "ws = (whole, sub)"
      by (cases ws)
    with Some have "c # s = [] @ (c # s) \<and> match_at (c # s) = Some (whole, sub) \<and>
        FindStringSubmatch (c # s) = [whole, sub]"
      by simp
    then show ?thesis
      by blast
  qed
qed

lemma parseRootHash_found:
  assumes "parseRootHash log \<noteq> ''''"
  shows "length (parseRootHash log) = 66 \<and> take 2 (parseRootHash log) = ''0x'' \<and>
         list_all is_hex (drop 2 (parseRootHash log)) \<and>
         (\<exists>a seps b. log = a @ ''root'' @ seps @ parseRootHash log @ b \<and>
            seps \<noteq> [] \<and> list_all is_sep seps)"
proof -
  from FindStringSubmatch_cases [of log] assms obtain a s' whole sub where
    log: "log = a @ s'" and m: "match_at s' = Some (whole, sub)"
    and f: "FindStringSubmatch log = [whole, sub]"
    by (auto simp: parseRootHash_def Let_def)
  have p: "parseRootHash log = sub"
    by (simp add: parseRootHash_def f)
  from match_at_Some [OF m] obtain seps b where
    sub: "length sub = 66" "take 2 sub = ''0x''" "list_all is_hex (drop 2 sub)"
    and s': "s' = ''root'' @ seps @ sub @ b" and seps: "seps \<noteq> []" "list_all is_sep seps"
    by blast
  have "log = a @ ''root'' @ seps @ sub @ b"
    by (simp add: log s')
  with sub seps show ?thesis
    unfolding p by blast
qed

lemma generateLargeFile_ok: "\<exists>written. generateLargeFile FileSize = Inr written"
  by (simp add: generateLargeFile_def FileSize_def)

text \<open>
  \<open>match_at\<close> decides the pattern at a position, so \<^verbatim>\<open>FindStringSubmatch\<close> returns the match
  that starts first, and \<^verbatim>\<open>parseRootHash\<close> returns the empty string exactly when the text has
  no match.
\<close>

lemma not_sep_zero: "\<not> is_sep (CHR ''0'')"
  by (simp add: is_sep_def)

lemma pattern_match_length: "pattern_match whole sub \<Longrightarrow> length sub = 66"
  by (auto simp: pattern_match_def)

lemma match_at_pattern:
  assumes "match_at s = Some (whole, sub)"
  shows "\<exists>b. s = whole @ b \<and> pattern_match whole sub"
proof -
  let ?seps = "takeWhile is_sep (drop 4 s)"
  let ?t = "dropWhile is_sep (drop 4 s)"
  from assms have r: "take 4 s = ''root''" and ne: "?seps \<noteq> []" and x: "take 2 ?t = ''0x''"
    and len: "64 \<le> length (drop 2 ?t)" and hex: "list_all is_hex (take 64 (drop 2 ?t))"
    and sub: "sub = take 66 ?t" and whole: "whole = ''root'' @ ?seps @ take 66 ?t"
    by (auto simp: match_at_def Let_def split: if_splits)
  have "s = take 4 s @ drop 4 s"
    by simp
  also have "drop 4 s = ?seps @ ?t"
    by simp
  also have "?t = take 66 ?t @ drop 66 ?t"
    by simp
  finally have s: "s = whole @ drop 66 ?t"
    unfolding r whole by simp
  have "take 66 ?t = take 2 ?t @ take 64 (drop 2 ?t)"
    using take_add [of 2 64 ?t] by simp
  then have sub2: "sub = ''0x'' @ take 64 (drop 2 ?t)"
    unfolding sub x by simp
  have seps: "list_all is_sep ?seps"
    by (auto simp: list_all_iff dest: set_takeWhileD)
  from len have l: "length (take 64 (drop 2 ?t)) = 64"
    by simp
  have "pattern_match whole sub"
    unfolding pattern_match_def
    apply (rule exI [of _ ?seps], rule exI [of _ "take 64 (drop 2 ?t)"])
    using ne seps sub2 l hex whole sub by simp
  with s show ?thesis
    by blast
qed

lemma pattern_match_at:
  assumes "pattern_match whole sub"
  shows "match_at (whole @ b) = Some (whole, sub)"
proof -
  from assms obtain seps hex where w: "whole = ''root'' @ seps @ sub" and ne: "seps \<noteq> []"
    and seps: "list_all is_sep seps" and sub: "sub = ''0x'' @ hex" and l: "length hex = 64"
    and hex: "list_all is_hex hex"
    by (auto simp: pattern_match_def)
  have d: "drop 4 (whole @ b) = seps @ (CHR ''0'' # CHR ''x'' # hex @ b)"
    by (simp add: w sub)
  have tw: "takeWhile is_sep (drop 4 (whole @ b)) = seps"
    unfolding d using seps not_sep_zero by (simp add: list_all_iff)
  have dw: "dropWhile is_sep (drop 4 (whole @ b)) = CHR ''0'' # CHR ''x'' # hex @ b"
    unfolding d using seps not_sep_zero by (simp add: list_all_iff)
  have t4: "take 4 (whole @ b) = ''root''"
    by (simp add: w)
  show ?thesis
    unfolding match_at_def t4 tw dw Let_def
    using ne l hex by (simp add: w sub)
qed

lemma match_at_iff:
  "match_at s = Some (whole, sub) \<longleftrightarrow> (\<exists>b. s = whole @ b \<and> pattern_match whole sub)"
  using match_at_pattern pattern_match_at by blast

lemma match_at_Nil: "match_at [] = None"
  by (simp add: match_at_def)

lemma FindStringSubmatch_none:
  "FindStringSubmatch s = [] \<longleftrightarrow> (\<forall>a s'. s = a @ s' \<longrightarrow> match_at s' = None)"
proof (induction s)
  case Nil
  show ?case by (simp add: match_at_Nil)
next
  case (Cons c s)
  show ?case
  proof (cases "match_at (c # s)")
    case None
    have "(\<forall>a s'. c # s = a @ s' \<longrightarrow> match_at s' = None) \<longleftrightarrow>
          (\<forall>a s'. s = a @ s' \<longrightarrow> match_at s' = None)"
      using None by (auto simp: Cons_eq_append_conv)
    with None Cons.IH show ?thesis
      by simp
  next
    case (Some m)
    then have "\<not> (\<forall>a s'. c # s = a @ s' \<longrightarrow> match_at s' = None)"
      by (auto intro: exI [of _ "[]"])
    with Some show ?thesis
      by (auto split: prod.split)
  qed
qed

lemma FindStringSubmatch_leftmost:
  assumes "match_at s' = Some (whole, sub)"
    and "\<forall>a' s''. a @ s' = a' @ s'' \<and> length a' < length a \<longrightarrow> match_at s'' = None"
  shows "FindStringSubmatch (a @ s') = [whole, sub]"
  using assms
proof (induction a)
  case Nil
  then show ?case
    by (cases s') (auto simp: match_at_Nil)
next
  case (Cons c a)
  from Cons.prems(2) have n: "match_at ((c # a) @ s') = None"
    by (auto dest: spec [of _ "[]"])
  have "\<forall>a' s''. a @ s' = a' @ s'' \<and> length a' < length a \<longrightarrow> match_at s'' = None"
  proof (intro allI impI)
    fix a' s''
    assume h: "a @ s' = a' @ s'' \<and> length a' < length a"
    then have "(c # a) @ s' = (c # a') @ s'' \<and> length (c # a') < length (c # a)"
      by simp
    with Cons.prems(2) show "match_at s'' = None"
      by blast
  qed
  with Cons.IH Cons.prems(1) have "FindStringSubmatch (a @ s') = [whole, sub]"
    by blast
  with n show ?case
    by simp
qed

lemma has_match_iff: "has_match s \<longleftrightarrow> (\<exists>a s'. s = a @ s' \<and> match_at s' \<noteq> None)"
proof
  assume "has_match s"
  then obtain a whole sub b where "s = a @ whole @ b" "pattern_match whole sub"
    by (auto simp: has_match_def)
  then show "\<exists>a s'. s = a @ s' \<and> match_at s' \<noteq> None"
    using pattern_match_at [of whole sub b] by (intro exI [of _ a] exI [of _ "whole @ b"]) simp
next
  assume "\<exists>a s'. s = a @ s' \<and> match_at s' \<noteq> None"
  then obtain a s' whole sub where "s = a @ s'" "match_at s' = Some (whole, sub)"
    by auto
  with match_at_pattern [of s' whole sub] show "has_match s"
    unfolding has_match_def by blast
qed

lemma parseRootHash_no_match: "\<not> has_match s \<Longrightarrow> parseRootHash s = ''''"
proof -
  assume "\<not> has_match s"
  then have "\<forall>a s'. s = a @ s' \<longrightarrow> match_at s' = None"
    unfolding has_match_iff by blast
  then have "FindStringSubmatch s = []"
    by (simp only: FindStringSubmatch_none)
  then show ?thesis
    by (simp add: parseRootHash_def)
qed

lemma parseRootHash_first_match:
  assumes "first_match s a whole sub"
  shows "parseRootHash s = sub"
proof -
  from assms obtain b where s: "s = a @ whole @ b" and p: "pattern_match whole sub"
    and least: "\<forall>a' whole' sub' b'. s = a' @ whole' @ b' \<and> pattern_match whole' sub' \<longrightarrow>
                  length a \<le> length a'"
    by (auto simp: first_match_def)
  have m: "match_at (whole @ b) = Some (whole, sub)"
    using p by (rule pattern_match_at)
  have "\<forall>a' s''. a @ whole @ b = a' @ s'' \<and> length a' < length a \<longrightarrow> match_at s'' = None"
  proof (intro allI impI)
    fix a' s''
    assume h: "a @ whole @ b = a' @ s'' \<and> length a' < length a"
    show "match_at s'' = None"
    proof (rule ccontr)
      assume "match_at s'' \<noteq> None"
      then obtain w' sub' where "match_at s'' = Some (w', sub')"
        by auto
      from match_at_pattern [OF this] obtain b' where "s'' = w' @ b'" "pattern_match w' sub'"
        by blast
      with h s have "s = a' @ w' @ b' \<and> pattern_match w' sub'"
        by simp
      with least have "length a \<le> length a'"
        by blast
      with h show False
        by simp
    qed
  qed
  with m have "FindStringSubmatch (a @ whole @ b) = [whole, sub]"
    by (rule FindStringSubmatch_leftmost)
  then show ?thesis
    by (simp add: parseRootHash_def s)
qed

lemma has_match_first:
  assumes "has_match s"
  shows "\<exists>a whole sub. first_match s a whole sub"
proof -
  let ?P = "\<lambda>n. \<exists>a whole sub b. s = a @ whole @ b \<and> pattern_match whole sub \<and> length a = n"
  from assms have "\<exists>n. ?P n"
    unfolding has_match_def by blast
  then have l: "?P (LEAST n. ?P n)"
    by (rule LeastI_ex)
  then obtain a whole sub b where s: "s = a @ whole @ b" and p: "pattern_match whole sub"
    and n: "length a = (LEAST n. ?P n)"
    by blast
  have "\<forall>a' whole' sub' b'. s = a' @ whole' @ b' \<and> pattern_match whole' sub' \<longrightarrow>
          length a \<le> length a'"
  proof (intro allI impI)
    fix a' whole' sub' b'
    assume "s = a' @ whole' @ b' \<and> pattern_match whole' sub'"
    then have "?P (length a')"
      by blast
    then have "(LEAST n. ?P n) \<le> length a'"
      by (rule Least_le)
    then show "length a \<le> length a'"
      by (simp add: n)
  qed
  with s p show ?thesis
    unfolding first_match_def by blast
qed

lemma first_match_unique:
  assumes "first_match s a whole sub" and "first_match s a' whole' sub'"
  shows "sub' = sub"
  using parseRootHash_first_match [OF assms(1)] parseRootHash_first_match [OF assms(2)] by simp

lemma parseRootHash_empty_iff: "parseRootHash s = '''' \<longleftrightarrow> \<not> has_match s"
proof
  assume e: "parseRootHash s = ''''"
  show "\<not> has_match s"
  proof
    assume "has_match s"
    from has_match_first [OF this] obtain a whole sub where f: "first_match s a whole sub"
      by blast
    then have "pattern_match whole sub"
      by (simp add: first_match_def)
    then have "length sub = 66"
      by (rule pattern_match_length)
    with parseRootHash_first_match [OF f] e show False
      by simp
  qed
qed (rule parseRootHash_no_match)

text \<open>The scanner, line by line, and the runs of the driver with a printing client.\<close>

lemma first_match_check:
  assumes s: "s = a @ whole @ b"
    and m: "match_at (whole @ b) = Some (whole, sub)"
    and none: "list_all (\<lambda>k. match_at (drop k s) = None) [0..<length a]"
  shows "first_match s a whole sub"
proof -
  from match_at_pattern [OF m] have p: "pattern_match whole sub"
    by blast
  have "\<forall>a' whole' sub' b'. s = a' @ whole' @ b' \<and> pattern_match whole' sub' \<longrightarrow>
          length a \<le> length a'"
  proof (intro allI impI)
    fix a' whole' sub' b'
    assume h: "s = a' @ whole' @ b' \<and> pattern_match whole' sub'"
    show "length a \<le> length a'"
    proof (rule ccontr)
      assume "\<not> length a \<le> length a'"
      then have "length a' \<in> set [0..<length a]"
        by simp
      with none have "match_at (drop (length a') s) = None"
        unfolding list_all_iff by blast
      moreover from h have "drop (length a') s = whole' @ b'"
        by simp
      ultimately show False
        using pattern_match_at [of whole' sub' b'] h by simp
    qed
  qed
  with s p show ?thesis
    unfolding first_match_def by blast
qed

lemma scan_from_line:
  "CHR 0x0A \<notin> set l \<Longrightarrow>
   scan_from cur (l @ CHR 0x0A # s) =
     (if MaxScanTokenSize \<le> length (cur @ l) then [] else dropCR (cur @ l) # scan_from [] s)"
  by (induction l arbitrary: cur) auto

lemma Scan_Nil: "Scan [] = []"
  by (simp add: Scan_def)

lemma Scan_line:
  "CHR 0x0A \<notin> set l \<Longrightarrow> length l < MaxScanTokenSize \<Longrightarrow>
   Scan (l @ CHR 0x0A # s) = dropCR l # Scan s"
  by (simp add: Scan_def scan_from_line)

lemma Scan_long_line:
  "CHR 0x0A \<notin> set l \<Longrightarrow> MaxScanTokenSize \<le> length l \<Longrightarrow> Scan (l @ CHR 0x0A # s) = []"
  by (simp add: Scan_def scan_from_line)

lemma scan_from_last_line:
  "CHR 0x0A \<notin> set l \<Longrightarrow>
   scan_from cur l =
     (if cur @ l = [] \<or> MaxScanTokenSize \<le> length (cur @ l) then [] else [dropCR (cur @ l)])"
  by (induction l arbitrary: cur) auto

lemma Scan_example:
  "Scan ''file uploaded, root: 0x00112233445566778899aabbccddeeff00112233445566778899AABBCCDDEEFF\<newline>'' =
     [''file uploaded, root: 0x00112233445566778899aabbccddeeff00112233445566778899AABBCCDDEEFF'']"
  by (simp add: Scan_def MaxScanTokenSize_def dropCR_def)

lemma Scan_example_logfmt:
  "Scan ''msg=uploaded root=0x00112233445566778899aabbccddeeff00112233445566778899AABBCCDDEEFF\<newline>'' =
     [''msg=uploaded root=0x00112233445566778899aabbccddeeff00112233445566778899AABBCCDDEEFF'']"
  by (simp add: Scan_def MaxScanTokenSize_def dropCR_def)

lemma parse_example:
  "parseRootHash (''file uploaded, root: 0x00112233445566778899aabbccddeeff00112233445566778899AABBCCDDEEFF\<newline>'') =
     ''0x00112233445566778899aabbccddeeff00112233445566778899AABBCCDDEEFF''"
  by code_simp

lemma parse_example_logfmt:
  "parseRootHash (''msg=uploaded root=0x00112233445566778899aabbccddeeff00112233445566778899AABBCCDDEEFF\<newline>'') = ''''"
  by code_simp

lemma printing_client_upload:
  "runCommand (printing_client raw) w ClientBinaryPath uploadArgs =
     Some ((concat (map (\<lambda>m. m @ [CHR 0x0A]) (Scan raw)), None),
           Executing ClientBinaryPath uploadArgs # map Echo (Scan raw), w + 1)"
  by (simp add: runCommand_def printing_client_def uploadArgs_def)

lemma printing_client_download:
  "runCommand (printing_client raw) w ClientBinaryPath (downloadArgs r) =
     Some (('''', None), [Executing ClientBinaryPath (downloadArgs r)], w + 1)"
  by (simp add: runCommand_def printing_client_def downloadArgs_def Scan_Nil)

lemma first_match_example:
  "first_match
     ''file uploaded, root: 0x00112233445566778899aabbccddeeff00112233445566778899AABBCCDDEEFF\<newline>''
     ''file uploaded, ''
     ''root: 0x00112233445566778899aabbccddeeff00112233445566778899AABBCCDDEEFF''
     ''0x00112233445566778899aabbccddeeff00112233445566778899AABBCCDDEEFF''"
proof (rule first_match_check [where b = "''\<newline>''"])
  show "''file uploaded, root: 0x00112233445566778899aabbccddeeff00112233445566778899AABBCCDDEEFF\<newline>'' =
      ''file uploaded, '' @ ''root: 0x00112233445566778899aabbccddeeff00112233445566778899AABBCCDDEEFF'' @ ''\<newline>''"
    by simp
  show "match_at (''root: 0x00112233445566778899aabbccddeeff00112233445566778899AABBCCDDEEFF'' @ ''\<newline>'') =
      Some (''root: 0x00112233445566778899aabbccddeeff00112233445566778899AABBCCDDEEFF'',
            ''0x00112233445566778899aabbccddeeff00112233445566778899AABBCCDDEEFF'')"
    by code_simp
  show "list_all (\<lambda>k. match_at (drop k
      ''file uploaded, root: 0x00112233445566778899aabbccddeeff00112233445566778899AABBCCDDEEFF\<newline>'') = None)
      [0..<length ''file uploaded, '']"
    by code_simp
qed

lemma no_match_example:
  "\<not> has_match ''msg=uploaded root=0x00112233445566778899aabbccddeeff00112233445566778899AABBCCDDEEFF\<newline>''"
  using parseRootHash_empty_iff parse_example_logfmt by blast

text \<open>
  A line of 64 KiB in front of the line with the root: the scanner stops at it, nothing is
  echoed, and the driver finds no root although the client wrote one.
\<close>

lemma long_line_hides_root:
  "has_match (replicate 65536 (CHR ''x'') @
      ''\<newline>root: 0x00112233445566778899aabbccddeeff00112233445566778899AABBCCDDEEFF\<newline>'') \<and>
   main_cli (printing_client (replicate 65536 (CHR ''x'') @
      ''\<newline>root: 0x00112233445566778899aabbccddeeff00112233445566778899AABBCCDDEEFF\<newline>'')) 0 =
     Some ([Generated TestFileName FileSize, Executing ClientBinaryPath uploadArgs, NoRootHash], 1)"
proof -
  let ?l = "replicate 65536 (CHR ''x'')"
  let ?w = "''root: 0x00112233445566778899aabbccddeeff00112233445566778899AABBCCDDEEFF''"
  let ?s = "''root: 0x00112233445566778899aabbccddeeff00112233445566778899AABBCCDDEEFF\<newline>''"
  have m: "match_at (?w @ ''\<newline>'') =
      Some (?w, ''0x00112233445566778899aabbccddeeff00112233445566778899AABBCCDDEEFF'')"
    by code_simp
  from match_at_pattern [OF m]
  have "pattern_match ?w ''0x00112233445566778899aabbccddeeff00112233445566778899AABBCCDDEEFF''"
    by blast
  moreover have "?l @ CHR 0x0A # ?s = (?l @ ''\<newline>'') @ ?w @ ''\<newline>''"
    by simp
  ultimately have h: "has_match (?l @ CHR 0x0A # ?s)"
    unfolding has_match_def by blast
  have "Scan (?l @ CHR 0x0A # ?s) = []"
    by (rule Scan_long_line) (simp_all add: MaxScanTokenSize_def)
  then have r: "runCommand (printing_client (?l @ CHR 0x0A # ?s)) 0 ClientBinaryPath uploadArgs =
      Some (('''', None), [Executing ClientBinaryPath uploadArgs], 1)"
    by (simp add: printing_client_upload)
  obtain written where g: "generateLargeFile FileSize = Inr written"
    using generateLargeFile_ok by blast
  have "parseRootHash '''' = ''''"
    by (simp add: parseRootHash_def)
  then have "main_cli (printing_client (?l @ CHR 0x0A # ?s)) 0 =
      Some ([Generated TestFileName FileSize, Executing ClientBinaryPath uploadArgs, NoRootHash], 1)"
    by (simp add: main_cli_def g r)
  with h show ?thesis
    by simp
qed

text \<open>A line of one byte less is delivered.\<close>

lemma Scan_longest_line:
  "Scan (replicate 65535 (CHR ''x'') @ CHR 0x0A # s) = replicate 65535 (CHR ''x'') # Scan s"
proof -
  have "dropCR (replicate 65535 (CHR ''x'')) = replicate 65535 (CHR ''x'')"
    by (simp add: dropCR_def)
  then show ?thesis
    by (simp add: Scan_line MaxScanTokenSize_def)
qed

text \<open>A download command that does not end: the run of the driver does not return.\<close>

lemma stuck_client_upload:
  "runCommand (stuck_client raw) w ClientBinaryPath uploadArgs =
     Some ((concat (map (\<lambda>m. m @ [CHR 0x0A]) (Scan raw)), None),
           Executing ClientBinaryPath uploadArgs # map Echo (Scan raw), w + 1)"
  by (simp add: runCommand_def stuck_client_def uploadArgs_def)

lemma stuck_client_download:
  "runCommand (stuck_client raw) w ClientBinaryPath (downloadArgs r) = None"
  by (simp add: runCommand_def stuck_client_def downloadArgs_def)

lemma stuck_download_never_returns:
  "main_cli
     (stuck_client
        ''file uploaded, root: 0x00112233445566778899aabbccddeeff00112233445566778899AABBCCDDEEFF\<newline>'')
     0 = None"
proof -
  obtain written where g: "generateLargeFile FileSize = Inr written"
    using generateLargeFile_ok by blast
  show ?thesis
    by (simp add: main_cli_def g stuck_client_upload stuck_client_download parse_example
        Scan_example Let_def)
qed

text \<open>Every call of \<^verbatim>\<open>runCommand\<close> that returns has printed its command first.\<close>

lemma runCommand_prints_command:
  assumes "runCommand exec w command args = Some (res, shown, w')"
  shows "\<exists>echoed. shown = Executing command args # echoed"
  using assms
  by (auto simp: runCommand_def Let_def split: prod.splits option.splits wait_result.splits)

section \<open>The claims\<close>

text \<open>
  C1 (the slices handed to \<^verbatim>\<open>Upload\<close> concatenate to the source file). This fails on the
  program's own input. \<^verbatim>\<open>main\<close> writes a test file of \<open>4 * 1024^3 = 4294967296\<close> bytes
  and reads it with a buffer of \<open>400 * 1024^2 = 419430400\<close> bytes in a loop of 10
  iterations. On a network without failures the run ends normally after 10 slices of
  419430400 bytes each: the read offset stops at 4194304000, the slices concatenate to the
  first 4194304000 bytes, and the last 100663296 bytes of the file are in no slice. (For a
  file of at most 10 buffers the slices of a run that ends normally do concatenate to the
  file: lemma \<open>short_file_sent\<close>.)
\<close>

theorem main_leaves_tail_unsent:
  "(case main (honest_env toy_root) [] of
      Inl err \<Rightarrow> False
    | Inr r \<Rightarrow>
        failure r = None \<and>
        content (src (final r)) = replicate 4294967296 0 \<and>
        offset (src (final r)) = 4194304000 \<and>
        length (sent (final r)) = 10 \<and>
        concat (sent (final r)) = replicate 4194304000 0 \<and>
        concat (sent (final r)) \<noteq> content (src (final r)))"
proof -
  let ?r = "main_steps (honest_env toy_root) (open_file (replicate 4294967296 0) None) ChunkSize []"
  have cs: "0 < ChunkSize" by (simp add: ChunkSize_def)
  have fin: "failure ?r = None"
    using cs by (rule honest_finishes)
  note s = main_sent [OF fin]
  have c: "concat (sent (final ?r)) = replicate 4194304000 0"
    unfolding s by (simp add: concat_replicate_zeros ChunkSize_def)
  have f: "content (src (final ?r)) = replicate 4294967296 0"
    by (simp add: main_steps_same_file open_file_def)
  have "offset (src (final ?r)) =
          min (fragment_count ChunkSize (replicate 4294967296 0) * ChunkSize) (length (replicate 4294967296 (0 :: byte)))"
    using finished_run(6) [OF fin cs] by (simp only: healthy_visible)
  then have o: "offset (src (final ?r)) = 4194304000"
    unfolding test_file_count by (simp add: ChunkSize_def)
  have ne: "replicate 4194304000 (0 :: byte) \<noteq> replicate 4294967296 0"
  proof
    assume "replicate 4194304000 (0 :: byte) = replicate 4294967296 0"
    then have "length (replicate 4194304000 (0 :: byte)) = length (replicate 4294967296 (0 :: byte))"
      by (rule arg_cong)
    then show False by simp
  qed
  show ?thesis
    unfolding main_run using fin c f o ne s by simp
qed

text \<open>
  C2 (downloading the collected roots in order gives the source file back). This fails on
  the same run: the 10 collected roots are all downloaded, every download succeeds and
  returns a slice of 419430400 zero bytes, and the downloaded bytes together are 4194304000
  bytes, not the 4294967296 bytes of the file. (On the network without failures, for a file
  of at most 10 buffers whose distinct slices have distinct roots, the downloaded bytes are
  the file: lemma \<open>short_file_roundtrip\<close>.)
\<close>

theorem main_downloads_less_than_file:
  "(case main (honest_env toy_root) [] of
      Inl err \<Rightarrow> False
    | Inr r \<Rightarrow>
        failure r = None \<and>
        content (src (final r)) = replicate 4294967296 0 \<and>
        length (roots (final r)) = 10 \<and>
        fetched (final r) = replicate 10 (Inr (replicate ChunkSize 0)) \<and>
        fetched_bytes (fetched (final r)) = replicate 4194304000 0 \<and>
        fetched_bytes (fetched (final r)) \<noteq> content (src (final r)))"
proof -
  let ?r = "main_steps (honest_env toy_root) (open_file (replicate 4294967296 0) None) ChunkSize []"
  have cs: "0 < ChunkSize" by (simp add: ChunkSize_def)
  have fin: "failure ?r = None"
    using cs by (rule honest_finishes)
  note s = main_sent [OF fin]
  have l: "length (roots (final ?r)) = 10"
    using finished_run(2) [OF fin cs] unfolding s by (auto dest: list_all2_lengthD)
  note ft = main_honest_fetched [of toy_root "[]"]
  have b: "fetched_bytes (fetched (final ?r)) = replicate 4194304000 0"
    unfolding ft by (simp add: fetched_bytes_def concat_replicate_zeros ChunkSize_def)
  have f: "content (src (final ?r)) = replicate 4294967296 0"
    by (simp add: main_steps_same_file open_file_def)
  have ne: "replicate 4194304000 (0 :: byte) \<noteq> replicate 4294967296 0"
  proof
    assume "replicate 4194304000 (0 :: byte) = replicate 4294967296 0"
    then have "length (replicate 4194304000 (0 :: byte)) = length (replicate 4294967296 (0 :: byte))"
      by (rule arg_cong)
    then show False by simp
  qed
  show ?thesis
    unfolding main_run using fin l ft b f ne by simp
qed

text \<open>
  C3, as the program has it. In a run whose upload loop ended normally every collected root
  is downloaded once, in the order of collection, whatever the earlier downloads returned.
  The download lines on the console are, root by root, the announcement followed by the
  failure with the error of the library when \<^verbatim>\<open>Download\<close> returned an error, and by the
  success line otherwise; a failed download is never logged as a success. The result of
  the library call (called with \<^verbatim>\<open>withProof = false\<close>) is all the program looks at: it does
  not hash the downloaded bytes itself. Every file a successful download wrote is removed
  again.
\<close>

theorem download_failures_are_logged:
  fixes e :: "'n env" and S flt cs n
  defines "st \<equiv> final (main_steps e (open_file S flt) cs n)"
  assumes "failure (main_steps e (open_file S flt) cs n) = None" and "0 < cs"
  shows "fetched st = map (download_result e (net st)) (List.enumerate 0 (roots st)) \<and>
         filter download_event (console st) =
           concat (map (download_log e (net st)) (List.enumerate 0 (roots st))) \<and>
         disk st = []"
  unfolding st_def
  using finished_run(5,7) [OF assms(2,3)] finished_console [OF assms(2,3)] by simp

text \<open>An instance for C3: one slice is uploaded, and its download times out.\<close>

theorem download_failures_are_logged_witness:
  "failure (main_steps ((honest_env toy_root)\<lparr>idx_Download := (\<lambda>n r out p. Inl ''timeout'')\<rparr>)
      (open_file [1, 2] None) 2 []) = None \<and>
   fetched (final (main_steps ((honest_env toy_root)\<lparr>idx_Download := (\<lambda>n r out p. Inl ''timeout'')\<rparr>)
      (open_file [1, 2] None) 2 [])) = [Inl ''timeout''] \<and>
   filter download_event (console (final (main_steps
      ((honest_env toy_root)\<lparr>idx_Download := (\<lambda>n r out p. Inl ''timeout'')\<rparr>)
      (open_file [1, 2] None) 2 []))) =
     [DownloadingChunk 1 ''0x00000000...'', DownloadFailed ''timeout''] \<and>
   concat (map (download_log ((honest_env toy_root)\<lparr>idx_Download := (\<lambda>n r out p. Inl ''timeout'')\<rparr>)
                 [(''0x0000000000000000000000000000000000000000000000000000000000010102'', [1, 2])])
            (List.enumerate 0 [''0x0000000000000000000000000000000000000000000000000000000000010102''])) =
     [DownloadingChunk 1 ''0x00000000...'', DownloadFailed ''timeout'']"
proof -
  let ?e = "(honest_env toy_root)\<lparr>idx_Download := (\<lambda>n r out p. Inl ''timeout'')\<rparr>"
  have fin: "failure (main_steps ?e (open_file [1, 2] None) 2 []) = None"
    by (simp add: offline_run)
  from download_failures_are_logged [OF fin] show ?thesis
    by (simp add: offline_run download_event_def download_log_def)
qed

text \<open>
  C3 as stated fails in two runs over the file \<open>[1, 2]\<close>. In the first every download
  returns an error: the run still ends normally and its last console line is the closing
  banner. In the second the library returns the bytes \<open>[9]\<close>, whose root is not the
  requested one, without an error: the program logs the download as succeeded.
\<close>

theorem download_failure_counterexample:
  "failure (main_steps ((honest_env toy_root)\<lparr>idx_Download := (\<lambda>n r out p. Inl ''timeout'')\<rparr>)
      (open_file [1, 2] None) 2 []) = None \<and>
   fetched (final (main_steps ((honest_env toy_root)\<lparr>idx_Download := (\<lambda>n r out p. Inl ''timeout'')\<rparr>)
      (open_file [1, 2] None) 2 [])) = [Inl ''timeout''] \<and>
   last (console (final (main_steps ((honest_env toy_root)\<lparr>idx_Download := (\<lambda>n r out p. Inl ''timeout'')\<rparr>)
      (open_file [1, 2] None) 2 []))) = AllDone \<and>
   fetched (final (main_steps ((honest_env toy_root)\<lparr>idx_Download := (\<lambda>n r out p. Inr [9])\<rparr>)
      (open_file [1, 2] None) 2 [])) = [Inr [9]] \<and>
   root_of ((honest_env toy_root)\<lparr>idx_Download := (\<lambda>n r out p. Inr [9])\<rparr>) [9] \<noteq>
     Some (roots (final (main_steps ((honest_env toy_root)\<lparr>idx_Download := (\<lambda>n r out p. Inr [9])\<rparr>)
       (open_file [1, 2] None) 2 [])) ! 0) \<and>
   filter download_event (console (final (main_steps
      ((honest_env toy_root)\<lparr>idx_Download := (\<lambda>n r out p. Inr [9])\<rparr>)
      (open_file [1, 2] None) 2 []))) =
     [DownloadingChunk 1 ''0x00000000...'', DownloadSucceeded ''downloaded_chunk_0.bin'']"
proof -
  have r: "root_of ((honest_env toy_root)\<lparr>idx_Download := (\<lambda>n r out p. Inr [9])\<rparr>) [9] =
      Some ''0x0000000000000000000000000000000000000000000000000000000000000109''"
    by (simp add: root_of_def honest_env_def toy_hex_9)
  show ?thesis
    unfolding r by (simp add: offline_run corrupt_run download_event_def)
qed

text \<open>
  C4, as the program has it. \<^verbatim>\<open>Upload\<close> takes the bytes and nothing else from its caller;
  the option record it hands to the library is the literal of lines 145-151. So \<^verbatim>\<open>Upload\<close>
  behaves on every environment as on the one whose upload call ignores the option it is
  given and uses \<^verbatim>\<open>FileFinalized\<close>, 1 replica, a task size of 16 MiB, the method
  \<^verbatim>\<open>"min"\<close> and trusted nodes only.
\<close>

theorem upload_policy_is_fixed:
  "Upload e n d =
     Upload (e\<lparr>idx_Upload := (\<lambda>m iter opt. idx_Upload e m iter
        \<lparr>FinalityRequired = FileFinalized, ExpectedReplica = 1, TaskSize = 16777216,
         Method = ''min'', FullTrusted = True\<rparr>)\<rparr>) n d"
  by (simp add: Upload_def upload_option_def UploadTaskSize_def split: sum.split prod.split)

text \<open>
  C4 as stated fails: on the recording network, two calls of \<^verbatim>\<open>Upload\<close> with different
  bytes, the second on a network that another client asked for 3 replicas, both request
  1 replica and \<^verbatim>\<open>FileFinalized\<close>. The caller has no way to ask for anything else.
\<close>

theorem upload_policy_counterexample:
  "snd (Upload recording_env [] [1, 2]) =
     [\<lparr>FinalityRequired = FileFinalized, ExpectedReplica = 1, TaskSize = 16777216,
       Method = ''min'', FullTrusted = True\<rparr>] \<and>
   snd (Upload recording_env
         [\<lparr>FinalityRequired = OtherFinality, ExpectedReplica = 3, TaskSize = 1,
           Method = ''random'', FullTrusted = False\<rparr>] [7]) =
     [\<lparr>FinalityRequired = OtherFinality, ExpectedReplica = 3, TaskSize = 1,
       Method = ''random'', FullTrusted = False\<rparr>,
      \<lparr>FinalityRequired = FileFinalized, ExpectedReplica = 1, TaskSize = 16777216,
       Method = ''min'', FullTrusted = True\<rparr>]"
  by (simp add: Upload_def recording_env_def upload_option_def UploadTaskSize_def)

text \<open>
  C5, as the repository has it. In \<^verbatim>\<open>main.go\<close> the root is a value that \<^verbatim>\<open>Upload\<close> returns
  (lemma \<open>Upload_root_of\<close>). The command-line driver has no such value: it takes the root
  out of text. When the upload command was started and ended without an error, the text
  is the output that \<^verbatim>\<open>runCommand\<close> collected: the lines the scanner delivered of what the
  client wrote (the lines before the first one of 64 KiB or more, each without a carriage
  return at its end), each followed by a line feed. A match is \<^verbatim>\<open>root\<close>, at least one colon
  or white-space character, and \<^verbatim>\<open>0x\<close> with 64 hexadecimal digits. If this text has no match,
  the driver prints that it found no root and stops: no download command is run. If it
  has one, there is a match that starts first, and the driver reports the 66 characters
  of this match from \<^verbatim>\<open>0x\<close> on as the root and runs the download command with them; how
  the run ends, and whether it ends, depends on that command only.
\<close>

theorem root_is_parsed_from_output:
  fixes exec :: "'w \<Rightarrow> string \<Rightarrow> string list \<Rightarrow> process_result \<times> 'w"
  fixes w w' :: 'w and p :: process_result
  defines "ls \<equiv> Scan (out_bytes p)"
  defines "output \<equiv> concat (map (\<lambda>m. m @ [CHR 0x0A]) ls)"
  defines "pre \<equiv> Generated TestFileName FileSize # Executing ClientBinaryPath uploadArgs # map Echo ls"
  assumes e: "exec w ClientBinaryPath uploadArgs = (p, w')"
    and started: "start_error p = None"
    and ended: "wait p = Returns None"
  shows "(\<not> has_match output \<longrightarrow> main_cli exec w = Some (pre @ [NoRootHash], w')) \<and>
         (has_match output \<longrightarrow> (\<exists>a whole r. first_match output a whole r)) \<and>
         (\<forall>a whole r. first_match output a whole r \<longrightarrow>
            main_cli exec w =
              (case runCommand exec w' ClientBinaryPath (downloadArgs r) of
                 None \<Rightarrow> None
               | Some ((output', Some err), shown', w2) \<Rightarrow>
                   Some (pre @ [UploadOk r] @ shown' @ [DownloadFailedMsg err], w2)
               | Some ((output', None), shown', w2) \<Rightarrow>
                   Some (pre @ [UploadOk r] @ shown' @ [DownloadOk (''downloaded_'' @ TestFileName)], w2)))"
proof -
  obtain written where g: "generateLargeFile FileSize = Inr written"
    using generateLargeFile_ok by blast
  have up: "runCommand exec w ClientBinaryPath uploadArgs =
      Some ((output, None), Executing ClientBinaryPath uploadArgs # map Echo ls, w')"
    by (simp add: runCommand_def e started ended output_def ls_def)
  have a: "main_cli exec w = Some (pre @ [NoRootHash], w')" if "\<not> has_match output"
  proof -
    from that have "parseRootHash output = ''''"
      by (rule parseRootHash_no_match)
    then show ?thesis
      by (simp add: main_cli_def g up pre_def)
  qed
  have c: "main_cli exec w =
      (case runCommand exec w' ClientBinaryPath (downloadArgs r) of
         None \<Rightarrow> None
       | Some ((output', Some err), shown', w2) \<Rightarrow>
           Some (pre @ [UploadOk r] @ shown' @ [DownloadFailedMsg err], w2)
       | Some ((output', None), shown', w2) \<Rightarrow>
           Some (pre @ [UploadOk r] @ shown' @ [DownloadOk (''downloaded_'' @ TestFileName)], w2))"
    if f: "first_match output a whole r" for a whole r
  proof -
    from f have r: "parseRootHash output = r"
      by (rule parseRootHash_first_match)
    from f have "pattern_match whole r"
      by (simp add: first_match_def)
    then have "length r = 66"
      by (rule pattern_match_length)
    then have ne: "r \<noteq> ''''"
      by auto
    show ?thesis
      using ne by (simp add: main_cli_def g up r pre_def split: prod.split option.split)
  qed
  from a c has_match_first show ?thesis
    by blast
qed

text \<open>
  Two runs for C5. A client that writes one line naming the root: the match that starts
  first is in this line, and the driver downloads with its 66 characters. A client
  that writes the same root as \<^verbatim>\<open>root=0x...\<close>: an equals sign is no separator of the pattern,
  the output has no match, and the driver stops after the upload.
\<close>

theorem root_is_parsed_from_output_witness:
  "printing_client
     ''file uploaded, root: 0x00112233445566778899aabbccddeeff00112233445566778899AABBCCDDEEFF\<newline>''
     0 ClientBinaryPath uploadArgs =
     (\<lparr>start_error = None,
       out_bytes = ''file uploaded, root: 0x00112233445566778899aabbccddeeff00112233445566778899AABBCCDDEEFF\<newline>'',
       wait = Returns None\<rparr>, 1) \<and>
   first_match
     (concat (map (\<lambda>m. m @ [CHR 0x0A])
        (Scan ''file uploaded, root: 0x00112233445566778899aabbccddeeff00112233445566778899AABBCCDDEEFF\<newline>'')))
     ''file uploaded, ''
     ''root: 0x00112233445566778899aabbccddeeff00112233445566778899AABBCCDDEEFF''
     ''0x00112233445566778899aabbccddeeff00112233445566778899AABBCCDDEEFF'' \<and>
   main_cli
     (printing_client
        ''file uploaded, root: 0x00112233445566778899aabbccddeeff00112233445566778899AABBCCDDEEFF\<newline>'')
     0 =
     Some ([Generated TestFileName FileSize,
       Executing ClientBinaryPath uploadArgs,
       Echo ''file uploaded, root: 0x00112233445566778899aabbccddeeff00112233445566778899AABBCCDDEEFF'',
       UploadOk ''0x00112233445566778899aabbccddeeff00112233445566778899AABBCCDDEEFF'',
       Executing ClientBinaryPath
         (downloadArgs ''0x00112233445566778899aabbccddeeff00112233445566778899AABBCCDDEEFF''),
       DownloadOk (''downloaded_'' @ TestFileName)], 2) \<and>
   printing_client
     ''msg=uploaded root=0x00112233445566778899aabbccddeeff00112233445566778899AABBCCDDEEFF\<newline>''
     0 ClientBinaryPath uploadArgs =
     (\<lparr>start_error = None,
       out_bytes = ''msg=uploaded root=0x00112233445566778899aabbccddeeff00112233445566778899AABBCCDDEEFF\<newline>'',
       wait = Returns None\<rparr>, 1) \<and>
   \<not> has_match
     (concat (map (\<lambda>m. m @ [CHR 0x0A])
        (Scan ''msg=uploaded root=0x00112233445566778899aabbccddeeff00112233445566778899AABBCCDDEEFF\<newline>''))) \<and>
   main_cli
     (printing_client
        ''msg=uploaded root=0x00112233445566778899aabbccddeeff00112233445566778899AABBCCDDEEFF\<newline>'')
     0 =
     Some ([Generated TestFileName FileSize,
       Executing ClientBinaryPath uploadArgs,
       Echo ''msg=uploaded root=0x00112233445566778899aabbccddeeff00112233445566778899AABBCCDDEEFF'',
       NoRootHash], 1)"
proof -
  let ?A = "''file uploaded, root: 0x00112233445566778899aabbccddeeff00112233445566778899AABBCCDDEEFF\<newline>''"
  let ?B = "''msg=uploaded root=0x00112233445566778899aabbccddeeff00112233445566778899AABBCCDDEEFF\<newline>''"
  let ?R = "''0x00112233445566778899aabbccddeeff00112233445566778899AABBCCDDEEFF''"
  let ?pA = "\<lparr>start_error = None, out_bytes = ?A, wait = Returns None\<rparr>"
  let ?pB = "\<lparr>start_error = None, out_bytes = ?B, wait = Returns None\<rparr>"
  have eA: "printing_client ?A 0 ClientBinaryPath uploadArgs = (?pA, 1)"
    by (simp add: printing_client_def uploadArgs_def)
  have eB: "printing_client ?B 0 ClientBinaryPath uploadArgs = (?pB, 1)"
    by (simp add: printing_client_def uploadArgs_def)
  have fA: "first_match (concat (map (\<lambda>m. m @ [CHR 0x0A]) (Scan ?A))) ''file uploaded, ''
      ''root: 0x00112233445566778899aabbccddeeff00112233445566778899AABBCCDDEEFF'' ?R"
    unfolding Scan_example using first_match_example by simp
  have nB: "\<not> has_match (concat (map (\<lambda>m. m @ [CHR 0x0A]) (Scan ?B)))"
    unfolding Scan_example_logfmt using no_match_example by simp
  from root_is_parsed_from_output [where exec = "printing_client ?A" and w = 0 and p = ?pA and w' = 1] eA fA
  have mA: "main_cli (printing_client ?A) 0 =
      Some ([Generated TestFileName FileSize, Executing ClientBinaryPath uploadArgs,
        Echo ''file uploaded, root: 0x00112233445566778899aabbccddeeff00112233445566778899AABBCCDDEEFF'',
        UploadOk ?R, Executing ClientBinaryPath (downloadArgs ?R),
        DownloadOk (''downloaded_'' @ TestFileName)], 2)"
    by (simp add: printing_client_download Scan_example)
  from root_is_parsed_from_output [where exec = "printing_client ?B" and w = 0 and p = ?pB and w' = 1] eB nB
  have mB: "main_cli (printing_client ?B) 0 =
      Some ([Generated TestFileName FileSize, Executing ClientBinaryPath uploadArgs,
        Echo ''msg=uploaded root=0x00112233445566778899aabbccddeeff00112233445566778899AABBCCDDEEFF'',
        NoRootHash], 1)"
    by (simp add: Scan_example_logfmt)
  from eA fA mA eB nB mB show ?thesis
    by blast
qed

text \<open>
  C5 as stated fails: the first run gets its root from the text the client wrote and from
  nowhere else. In the second run the client wrote the same root as \<^verbatim>\<open>root=0x...\<close>; the
  driver does not find it and stops after a successful upload without a root.
\<close>

theorem root_is_parsed_counterexample:
  "main_cli
     (printing_client
        ''file uploaded, root: 0x00112233445566778899aabbccddeeff00112233445566778899AABBCCDDEEFF\<newline>'')
     0 =
     Some ([Generated TestFileName FileSize,
       Executing ClientBinaryPath uploadArgs,
       Echo ''file uploaded, root: 0x00112233445566778899aabbccddeeff00112233445566778899AABBCCDDEEFF'',
       UploadOk ''0x00112233445566778899aabbccddeeff00112233445566778899AABBCCDDEEFF'',
       Executing ClientBinaryPath
         (downloadArgs ''0x00112233445566778899aabbccddeeff00112233445566778899AABBCCDDEEFF''),
       DownloadOk (''downloaded_'' @ TestFileName)], 2) \<and>
   main_cli
     (printing_client
        ''msg=uploaded root=0x00112233445566778899aabbccddeeff00112233445566778899AABBCCDDEEFF\<newline>'')
     0 =
     Some ([Generated TestFileName FileSize,
       Executing ClientBinaryPath uploadArgs,
       Echo ''msg=uploaded root=0x00112233445566778899aabbccddeeff00112233445566778899AABBCCDDEEFF'',
       NoRootHash], 1)"
proof -
  obtain written where g: "generateLargeFile FileSize = Inr written"
    using generateLargeFile_ok by blast
  show ?thesis
    by (simp add: main_cli_def g printing_client_upload printing_client_download parse_example
        parse_example_logfmt Scan_example Scan_example_logfmt Let_def)
qed

text \<open>
  C6. For an empty source file the run ends normally: no slice is handed to \<^verbatim>\<open>Upload\<close>, the
  network is untouched, the list of roots is empty, nothing is downloaded, and the closing
  banner is printed. This holds for every environment and every buffer size.
\<close>

theorem empty_source_completes:
  "main_steps e (open_file [] flt) cs n =
     Finished \<lparr>src = open_file [] flt, buffer = replicate cs 0, roots = [], net = n, disk = [],
               console = [UploadingChunk 1, AllDone], sent = [], fetched = []\<rparr>"
  by (simp add: main_steps_def upload_loop.simps [of e 0] upload_body_def ReadFull_def Let_def
      init_state_def open_file_def visible_def hits_fault_def split: option.split)

text \<open>
  C7. Let \<open>V\<close> be the bytes the file delivers and \<open>cs > 0\<close> the buffer size. In a run that
  ends normally the slices handed to \<^verbatim>\<open>Upload\<close> are the windows \<open>0, 1, ..., k - 1\<close> of \<open>V\<close>
  in this order, where \<open>k\<close> is the number of windows (at most 10), there are exactly \<open>k\<close>
  roots, and root \<open>i\<close> is the root of window \<open>i\<close>: no gap, no duplicate, no reordering.
  In a run that stops because the upload of chunk number \<open>j\<close> failed, the windows
  \<open>0, ..., j - 1\<close> were handed to \<^verbatim>\<open>Upload\<close> and no further one, the roots of the first
  \<open>j - 1\<close> windows were collected, the error is the one \<^verbatim>\<open>Upload\<close> returned for window
  \<open>j - 1\<close>, and nothing was downloaded.
\<close>

theorem roots_follow_fragments:
  fixes e :: "'n env" and S flt cs n
  defines "r \<equiv> main_steps e (open_file S flt) cs n"
    and "V \<equiv> visible (open_file S flt)"
  assumes cs: "0 < cs"
  shows "(failure r = None \<longrightarrow>
            sent (final r) = map (frag cs V) [0..<fragment_count cs V] \<and>
            length (roots (final r)) = fragment_count cs V \<and>
            (\<forall>i < fragment_count cs V. root_of e (frag cs V i) = Some (roots (final r) ! i))) \<and>
         (\<forall>j uerr. failure r = Some (ChunkUploadFailed j uerr) \<longrightarrow>
            0 < j \<and> j \<le> 10 \<and>
            sent (final r) = map (frag cs V) [0..<j] \<and>
            length (roots (final r)) = j - 1 \<and>
            (\<forall>i < j - 1. root_of e (frag cs V i) = Some (roots (final r) ! i)) \<and>
            fst (Upload e (net_after e n (map (frag cs V) [0..<j - 1])) (frag cs V (j - 1))) = Inl uerr \<and>
            fetched (final r) = [])"
proof (cases r)
  case (Finished st)
  then have t: "main_steps e (open_file S flt) cs n = Finished st"
    by (simp add: r_def)
  from main_steps_Finished [OF t cs] obtain k up where
    inv: "upload_inv e cs V n k up" and stop: "k = 10 \<or> length V \<le> k * cs"
    and eq: "sent st = sent up" "roots st = roots up"
    unfolding V_def by blast
  have k: "k = fragment_count cs V"
    using inv cs stop by (rule upload_inv_count)
  from inv have s: "sent up = map (frag cs V) [0..<k]"
    and l: "list_all2 (\<lambda>r d. root_of e d = Some r) (roots up) (map (frag cs V) [0..<k])"
    by (auto simp: upload_inv_def)
  from l have len: "length (roots up) = k"
    by (auto dest: list_all2_lengthD)
  from l have nth: "\<forall>i<k. root_of e (frag cs V i) = Some (roots up ! i)"
    by (auto simp: list_all2_conv_all_nth)
  show ?thesis
    using Finished eq s len nth k by simp
next
  case (Aborted a st)
  then have t: "main_steps e (open_file S flt) cs n = Aborted a st"
    by (simp add: r_def)
  from main_steps_Aborted [OF t cs] obtain k where k: "k < 10"
    and f: "fetched st = []"
    and l: "list_all2 (\<lambda>r d. root_of e d = Some r) (roots st) (map (frag cs V) [0..<k])"
    and c: "case a of
              ReadFailed err \<Rightarrow> True
            | ChunkUploadFailed j uerr \<Rightarrow>
                j = Suc k \<and> sent st = map (frag cs V) [0..<Suc k] \<and>
                fst (Upload e (net_after e n (map (frag cs V) [0..<k])) (frag cs V k)) = Inl uerr
            | SliceOutOfRange \<Rightarrow> False"
    unfolding upload_post_def outcome.case V_def by (cases a) auto
  from l have len: "length (roots st) = k"
    by (auto dest: list_all2_lengthD)
  from l have nth: "\<forall>i<k. root_of e (frag cs V i) = Some (roots st ! i)"
    by (auto simp: list_all2_conv_all_nth)
  show ?thesis
    using Aborted c k f len nth by (cases a) auto
qed

text \<open>
  Two instances for C7, over the file \<open>[1, 2, 3]\<close> with a buffer of 2 bytes: one on a network with room
  for both slices, one on a network with room for a single slice, where the upload of
  chunk 2 fails.
\<close>

theorem roots_follow_fragments_witness:
  "failure (main_steps (limited_env toy_root 5) (open_file [1, 2, 3] None) 2 []) = None \<and>
   sent (final (main_steps (limited_env toy_root 5) (open_file [1, 2, 3] None) 2 [])) = [[1, 2], [3]] \<and>
   roots (final (main_steps (limited_env toy_root 5) (open_file [1, 2, 3] None) 2 [])) =
     [''0x0000000000000000000000000000000000000000000000000000000000010102'',
      ''0x0000000000000000000000000000000000000000000000000000000000000103''] \<and>
   failure (main_steps (limited_env toy_root 1) (open_file [1, 2, 3] None) 2 []) =
     Some (ChunkUploadFailed 2 (UploadFailed ''no storage node available'')) \<and>
   sent (final (main_steps (limited_env toy_root 1) (open_file [1, 2, 3] None) 2 [])) = [[1, 2], [3]] \<and>
   roots (final (main_steps (limited_env toy_root 1) (open_file [1, 2, 3] None) 2 [])) =
     [''0x0000000000000000000000000000000000000000000000000000000000010102'']"
proof -
  have cnt: "fragment_count 2 (visible (open_file [1, 2, 3 :: byte] None)) = 2"
    by (simp add: fragment_count_def visible_def open_file_def)
  have fr: "map (frag 2 (visible (open_file [1, 2, 3 :: byte] None))) [0..<2] = [[1, 2], [3]]"
    by (simp add: frag_def visible_def open_file_def upt_rec)
  from roots_follow_fragments [of 2 "limited_env toy_root 5" "[1, 2, 3]" None "[]"]
    roots_follow_fragments [of 2 "limited_env toy_root 1" "[1, 2, 3]" None "[]"]
    cnt fr
  show ?thesis unfolding roomy_run full_run by simp
qed

text \<open>
  C8. The root that \<^verbatim>\<open>Upload\<close> returns is the one computed locally from the slice
  (\<open>root_of\<close>, which does not mention the network): two successful uploads of the same
  bytes return the same root, whatever the two network states are and however the network
  upload call behaves.
\<close>

theorem upload_root_is_local:
  assumes "Upload e n1 d = (Inr (tx1, r1), m1)"
    and "Upload (e\<lparr>idx_Upload := up\<rparr>) n2 d = (Inr (tx2, r2), m2)"
  shows "r1 = r2 \<and> root_of e d = Some r1"
proof -
  have "root_of e d = Some r1"
    using assms(1) by (rule Upload_root_of)
  moreover have "root_of (e\<lparr>idx_Upload := up\<rparr>) d = Some r2"
    using assms(2) by (rule Upload_root_of)
  moreover have "root_of (e\<lparr>idx_Upload := up\<rparr>) d = root_of e d"
    by (simp add: root_of_def split: sum.split)
  ultimately show ?thesis by simp
qed

text \<open>
  An instance for C8: the slice \<open>[1, 2]\<close> uploaded to the empty honest network, and uploaded to a
  network that already holds something and reports the transaction hash 7. The
  transaction hashes and the networks differ, the root is the same.
\<close>

theorem upload_root_is_local_witness:
  "Upload (honest_env toy_root) [] [1, 2] =
     (Inr (Hex (toy_root [1, 2]), Hex (toy_root [1, 2])), [(Hex (toy_root [1, 2]), [1, 2])]) \<and>
   Upload ((honest_env toy_root)\<lparr>idx_Upload := (\<lambda>n d opt. (Inr 7, n))\<rparr>) [(''other'', [9])] [1, 2] =
     (Inr (Hex 7, Hex (toy_root [1, 2])), [(''other'', [9])]) \<and>
   root_of (honest_env toy_root) [1, 2] = Some (Hex (toy_root [1, 2])) \<and>
   Hex (toy_root [1, 2]) = ''0x0000000000000000000000000000000000000000000000000000000000010102''"
proof -
  have a: "Upload (honest_env toy_root) [] [1, 2] =
      (Inr (Hex (toy_root [1, 2]), Hex (toy_root [1, 2])), [(Hex (toy_root [1, 2]), [1, 2])])"
    by (simp add: Upload_def honest_env_def)
  have b: "Upload ((honest_env toy_root)\<lparr>idx_Upload := (\<lambda>n d opt. (Inr 7, n))\<rparr>) [(''other'', [9])] [1, 2] =
      (Inr (Hex 7, Hex (toy_root [1, 2])), [(''other'', [9])])"
    by (simp add: Upload_def honest_env_def)
  have c: "Hex (toy_root [1, 2]) = ''0x0000000000000000000000000000000000000000000000000000000000010102''"
    by code_simp
  from upload_root_is_local [OF a b] a b c show ?thesis
    by simp
qed

text \<open>
  C9. Whatever the file, its length, the environment and the way the run ends, at most 10
  slices are handed to \<^verbatim>\<open>Upload\<close> and at most 10 roots are collected; the read offset never
  passes 10 times the buffer size, and the uploaded bytes are a prefix of the file of at
  most that length. \<^verbatim>\<open>main\<close> runs with a buffer of \<^verbatim>\<open>ChunkSize\<close> bytes, so nothing beyond
  the first \<open>10 * ChunkSize\<close> bytes is read or uploaded.
\<close>

theorem upload_at_most_ten:
  "length (sent (final (main_steps e (open_file S flt) cs n))) \<le> 10 \<and>
   length (roots (final (main_steps e (open_file S flt) cs n))) \<le> 10 \<and>
   offset (src (final (main_steps e (open_file S flt) cs n))) \<le> 10 * cs \<and>
   concat (sent (final (main_steps e (open_file S flt) cs n))) =
     take (length (concat (sent (final (main_steps e (open_file S flt) cs n))))) S \<and>
   length (concat (sent (final (main_steps e (open_file S flt) cs n)))) \<le> 10 * cs"
proof (cases "cs = 0")
  case True
  show ?thesis
    unfolding True main_steps_zero_buffer by (simp add: open_file_def)
next
  case False
  then have "0 < cs" by simp
  then show ?thesis by (rule main_steps_bounds)
qed

text \<open>
  C10. \<^verbatim>\<open>Upload\<close> is not atomic: when the data object is created and the network upload
  succeeds but the local Merkle tree fails, \<^verbatim>\<open>Upload\<close> returns the wrapped tree error and no
  transaction hash, while the network is the one the upload left behind.
\<close>

theorem upload_not_atomic:
  assumes "NewDataInMemory e d = Inr iter"
    and "idx_Upload e n iter upload_option = (Inr txHash, n')"
    and "MerkleTree e iter = Inl err"
  shows "Upload e n d = (Inl (MerkleRootFailed err), n')"
  using assms by (simp add: Upload_def)

text \<open>
  An instance for C10: the honest network with a tree computation that fails. The slice is stored
  in the network, and the caller gets an error.
\<close>

theorem upload_not_atomic_witness:
  "NewDataInMemory ((honest_env toy_root)\<lparr>MerkleTree := (\<lambda>d. Inl ''tree failed'')\<rparr>) [1, 2] = Inr [1, 2] \<and>
   idx_Upload ((honest_env toy_root)\<lparr>MerkleTree := (\<lambda>d. Inl ''tree failed'')\<rparr>) [] [1, 2] upload_option =
     (Inr (toy_root [1, 2]), [(Hex (toy_root [1, 2]), [1, 2])]) \<and>
   MerkleTree ((honest_env toy_root)\<lparr>MerkleTree := (\<lambda>d. Inl ''tree failed'')\<rparr>) [1, 2] = Inl ''tree failed'' \<and>
   Upload ((honest_env toy_root)\<lparr>MerkleTree := (\<lambda>d. Inl ''tree failed'')\<rparr>) [] [1, 2] =
     (Inl (MerkleRootFailed ''tree failed''), [(Hex (toy_root [1, 2]), [1, 2])])"
proof -
  let ?e = "(honest_env toy_root)\<lparr>MerkleTree := (\<lambda>d. Inl ''tree failed'')\<rparr>"
  have a: "NewDataInMemory ?e [1, 2] = Inr [1, 2]"
    by (simp add: honest_env_def)
  have b: "idx_Upload ?e [] [1, 2] upload_option = (Inr (toy_root [1, 2]), [(Hex (toy_root [1, 2]), [1, 2])])"
    by (simp add: honest_env_def)
  have c: "MerkleTree ?e [1, 2] = Inl ''tree failed''"
    by simp
  from upload_not_atomic [OF a b c] a b c show ?thesis
    by simp
qed

end
